theory Spec2Isabelle
  imports Complex_Main "HOL-Library.Word" "HOL-Library.Sublist"
begin

unbundle bit_operations_syntax

section \<open>Data model of circuit.h as used by circuit.cc\<close>

text \<open>
  The gate flags are tested one bit at a time (\<^verbatim>\<open>gate.flags & GATE_X\<close>); the flag word is
  the set of the flags that are on.
\<close>

datatype gate_flag =
    GATE_TAKES_PARENS_ARGUMENT
  | GATE_PRODUCES_RESULTS
  | GATE_IS_NOT_FUSABLE
  | GATE_IS_BLOCK
  | GATE_TARGETS_PAIRS
  | GATE_TARGETS_PAULI_STRING
  | GATE_ONLY_TARGETS_MEASUREMENT_RECORD
  | GATE_CAN_TARGET_MEASUREMENT_RECORD

record gate =
  gate_id :: nat
  gate_name :: string
  gate_flags :: "gate_flag set"

text \<open>
  The declarations of gate_data.h and circuit.h that circuit.cc uses and that are not among
  the sources: the gate table lookup \<^verbatim>\<open>GATE_DATA.at\<close> (\<open>None\<close> where it throws), the
  function \<^verbatim>\<open>gate_name_to_id\<close>, and the masks of the 32-bit target word. They are
  parameters of every definition below.
\<close>

record decls =
  GATE_DATA_at :: "string \<Rightarrow> gate option"
  gate_name_to_id :: "string \<Rightarrow> nat"
  TARGET_QUBIT_MASK :: "32 word"
  TARGET_RECORD_MASK :: "32 word"
  TARGET_RECORD_SHIFT :: nat
  TARGET_PAULI_X_MASK :: "32 word"
  TARGET_PAULI_Z_MASK :: "32 word"
  TARGET_INVERTED_MASK :: "32 word"

text \<open>
  An operation is a view into the arena \<^verbatim>\<open>jagged_data\<close> of its circuit: gate, argument,
  offset and length. The argument is a \<^verbatim>\<open>double\<close> in the source; here it is the exact
  rational it denotes (rounding, infinities and NaN are outside the model).
\<close>

record operation =
  op_gate :: gate
  op_arg :: rat
  op_offset :: nat
  op_length :: nat

record circuit =
  jagged_data :: "32 word list"
  operations :: "operation list"
  num_qubits :: nat
  num_measurements :: nat

datatype error =
    Record_lookback_zero
  | Before_beginning_of_time
  | Observable_index_not_integer
  | Unknown_gate
  | Not_a_non_negative_real
  | Missing_parens_argument
  | Missing_closing_parens
  | Expected_a_digit
  | Number_too_large
  | Targets_not_separated
  | Missing_minus_after_at
  | Minimum_lookback
  | Maximum_lookback
  | Missing_at
  | Expected_a_pauli
  | Space_after_pauli
  | Missing_block_open
  | Unexpected_block_open
  | Odd_number_of_targets
  | Interacting_target_with_itself
  | Unterminated_block
  | Uninitiated_block
  | Invalid_repeat_instruction
  | Repeating_zero_times
  | No_parens_arg
  | Invalid_target_flags
  | Out_of_fuel

definition targets :: "32 word list \<Rightarrow> operation \<Rightarrow> 32 word list" where
  "targets arena op = take (op_length op) (drop (op_offset op) arena)"

definition has_flag :: "gate \<Rightarrow> gate_flag \<Rightarrow> bool" where
  "has_flag g f = (f \<in> gate_flags g)"

definition empty_circuit :: circuit where
  "empty_circuit = \<lparr>jagged_data = [], operations = [], num_qubits = 0, num_measurements = 0\<rparr>"

subsection \<open>Fusability and equality\<close>

definition can_fuse :: "operation \<Rightarrow> operation \<Rightarrow> bool" where
  "can_fuse a b =
     (gate_id (op_gate a) = gate_id (op_gate b) \<and> op_arg a = op_arg b \<and>
      \<not> has_flag (op_gate a) GATE_IS_NOT_FUSABLE)"

text \<open>Each side of \<^verbatim>\<open>Operation::operator==\<close> reads its targets through its own arena.\<close>

definition operation_eq :: "32 word list \<Rightarrow> operation \<Rightarrow> 32 word list \<Rightarrow> operation \<Rightarrow> bool" where
  "operation_eq arena_a a arena_b b =
     (gate_id (op_gate a) = gate_id (op_gate b) \<and>
      op_arg a = op_arg b \<and> targets arena_a a = targets arena_b b)"

definition circuit_eq :: "circuit \<Rightarrow> circuit \<Rightarrow> bool" where
  "circuit_eq a b =
     (num_qubits a = num_qubits b \<and> num_measurements a = num_measurements b \<and>
      list_all2 (\<lambda>x y. operation_eq (jagged_data a) x (jagged_data b) y)
        (operations a) (operations b))"

section \<open>The builder\<close>

definition circuit_incremental_update_from_back :: "decls \<Rightarrow> circuit \<Rightarrow> circuit" where
  "circuit_incremental_update_from_back D c =
     (let op = last (operations c);
          vec = targets (jagged_data c) op;
          c1 = (if has_flag (op_gate op) GATE_PRODUCES_RESULTS
                then c\<lparr>num_measurements := num_measurements c + op_length op\<rparr> else c)
      in c1\<lparr>num_qubits :=
              foldl (\<lambda>n q. max n (unat ((q AND TARGET_QUBIT_MASK D) + 1))) (num_qubits c1) vec\<rparr>)"

text \<open>
  \<^verbatim>\<open>append_operation\<close> receives an operation of another circuit; \<open>arena\<close> is the arena that
  operation points into.
\<close>

definition append_operation :: "decls \<Rightarrow> circuit \<Rightarrow> 32 word list \<Rightarrow> operation \<Rightarrow> circuit" where
  "append_operation D c arena operation =
     (let converted = \<lparr>op_gate = op_gate operation, op_arg = op_arg operation,
                       op_offset = length (jagged_data c), op_length = op_length operation\<rparr>;
          c1 = c\<lparr>operations := operations c @ [converted]\<rparr>;
          c2 = c1\<lparr>jagged_data := jagged_data c1 @ targets arena operation\<rparr>
      in circuit_incremental_update_from_back D c2)"

text \<open>
  The argument of \<^verbatim>\<open>append_circuit\<close> is a reference: \<open>This\<close> is the case
  \<^verbatim>\<open>&circuit == this\<close>, \<open>Other s\<close> any other circuit.
\<close>

datatype circuit_ref = This | Other circuit

fun insert_copies :: "nat \<Rightarrow> operation list \<Rightarrow> operation list \<Rightarrow> operation list" where
  "insert_copies 0 block ops = ops"
| "insert_copies (Suc n) block ops = insert_copies n block (ops @ block)"

definition append_circuit :: "decls \<Rightarrow> circuit \<Rightarrow> circuit_ref \<Rightarrow> nat \<Rightarrow> circuit" where
  "append_circuit D c src repetitions =
     (if repetitions = 0 then c
      else
        let original_size = length (operations c) in
        case src of
          This \<Rightarrow>
            c\<lparr>num_measurements := num_measurements c * (repetitions + 1),
              operations := insert_copies repetitions (take original_size (operations c))
                              (operations c)\<rparr>
        | Other s \<Rightarrow>
            let c1 = foldl (\<lambda>acc op. append_operation D acc (jagged_data s) op) c (operations s)
            in c1\<lparr>operations := insert_copies (repetitions - 1)
                                    (drop original_size (operations c1)) (operations c1)\<rparr>)"

definition clear :: "circuit \<Rightarrow> circuit" where
  "clear c = c\<lparr>num_qubits := 0, num_measurements := 0, jagged_data := [], operations := []\<rparr>"

text \<open>\<^verbatim>\<open>operator+=\<close> and \<^verbatim>\<open>operator*=\<close>.\<close>

definition plus_assign :: "decls \<Rightarrow> circuit \<Rightarrow> circuit_ref \<Rightarrow> circuit" where
  "plus_assign D c other = append_circuit D c other 1"

definition times_assign :: "decls \<Rightarrow> circuit \<Rightarrow> nat \<Rightarrow> circuit" where
  "times_assign D c repetitions =
     (if repetitions = 0 then clear c else append_circuit D c This (repetitions - 1))"

text \<open>
  The two loops that reject a pair gate applied to the same target twice
  (\<^verbatim>\<open>vec[k] == vec[k + 1]\<close> for even \<open>k\<close>) compare whole target words.
\<close>

fun interacts_with_itself :: "32 word list \<Rightarrow> bool" where
  "interacts_with_itself (a # b # rest) = (a = b \<or> interacts_with_itself rest)"
| "interacts_with_itself _ = False"

definition valid_target_mask :: "decls \<Rightarrow> gate \<Rightarrow> 32 word" where
  "valid_target_mask D g =
     (let m0 = TARGET_QUBIT_MASK D;
          m1 = (if has_flag g GATE_PRODUCES_RESULTS then m0 OR TARGET_INVERTED_MASK D else m0);
          m2 = (if has_flag g GATE_TARGETS_PAULI_STRING
                then m1 OR (TARGET_PAULI_X_MASK D OR TARGET_PAULI_Z_MASK D) else m1)
      in if has_flag g GATE_ONLY_TARGETS_MEASUREMENT_RECORD \<or>
            has_flag g GATE_CAN_TARGET_MEASUREMENT_RECORD
         then m2 OR TARGET_RECORD_MASK D else m2)"

text \<open>
  \<^verbatim>\<open>append_op\<close> either throws or returns; in both cases the circuit it was called on is
  left in some state, which is the second component of the result.
\<close>

definition append_op ::
  "decls \<Rightarrow> circuit \<Rightarrow> string \<Rightarrow> 32 word list \<Rightarrow> rat \<Rightarrow> bool \<Rightarrow> error option \<times> circuit" where
  "append_op D c name vec arg allow_fusing =
     (case GATE_DATA_at D name of
        None \<Rightarrow> (Some Unknown_gate, c)
      | Some g \<Rightarrow>
          if has_flag g GATE_TARGETS_PAIRS \<and> odd (length vec) then (Some Odd_number_of_targets, c)
          else if has_flag g GATE_TARGETS_PAIRS \<and> interacts_with_itself vec
          then (Some Interacting_target_with_itself, c)
          else if arg \<noteq> 0 \<and> \<not> has_flag g GATE_TAKES_PARENS_ARGUMENT then (Some No_parens_arg, c)
          else if list_ex (\<lambda>q. q \<noteq> (q AND valid_target_mask D g)) vec
          then (Some Invalid_target_flags, c)
          else
            let c1 =
              (if allow_fusing \<and> \<not> has_flag g GATE_IS_NOT_FUSABLE \<and> operations c \<noteq> [] \<and>
                  gate_id (op_gate (last (operations c))) = gate_id g \<and>
                  op_arg (last (operations c)) = arg
               then
                 let back = last (operations c);
                     c2 = (if has_flag g GATE_PRODUCES_RESULTS
                           then c\<lparr>num_measurements := num_measurements c - op_length back\<rparr>
                           else c);
                     c3 = c2\<lparr>jagged_data := jagged_data c2 @ vec\<rparr>
                 in c3\<lparr>operations := butlast (operations c3) @
                                       [back\<lparr>op_length := op_length back + length vec\<rparr>]\<rparr>
               else
                 let converted = \<lparr>op_gate = g, op_arg = arg,
                                  op_offset = length (jagged_data c), op_length = length vec\<rparr>;
                     c2 = c\<lparr>operations := operations c @ [converted]\<rparr>
                 in c2\<lparr>jagged_data := jagged_data c2 @ vec\<rparr>)
            in (None, circuit_incremental_update_from_back D c1))"

section \<open>Detectors and observables\<close>

text \<open>
  \<^verbatim>\<open>qubit_measure_indices\<close> is an unordered map whose \<^verbatim>\<open>operator[]\<close> makes a missing entry
  the empty vector: a total function into lists.
\<close>

definition target_qubit :: "decls \<Rightarrow> 32 word \<Rightarrow> nat" where
  "target_qubit D qb = unat (qb AND TARGET_QUBIT_MASK D)"

definition target_lookback :: "decls \<Rightarrow> 32 word \<Rightarrow> nat" where
  "target_lookback D qb = unat (drop_bit (TARGET_RECORD_SHIFT D) (qb AND TARGET_RECORD_MASK D))"

fun resolve :: "decls \<Rightarrow> (nat \<Rightarrow> nat list) \<Rightarrow> 32 word list \<Rightarrow> error + nat list" where
  "resolve D qmi [] = Inr []"
| "resolve D qmi (qb # rest) =
     (let q = target_qubit D qb; dt = target_lookback D qb in
      if dt = 0 then Inl Record_lookback_zero
      else
        let v = qmi q in
        if dt > length v then Inl Before_beginning_of_time
        else (case resolve D qmi rest of
                Inl e \<Rightarrow> Inl e
              | Inr indices \<Rightarrow> Inr (v ! (length v - dt) # indices)))"

fun record_results :: "decls \<Rightarrow> (nat \<Rightarrow> nat list) \<times> nat \<Rightarrow> 32 word list \<Rightarrow> (nat \<Rightarrow> nat list) \<times> nat" where
  "record_results D (qmi, m) [] = (qmi, m)"
| "record_results D (qmi, m) (target # rest) =
     record_results D
       (qmi(target_qubit D target := qmi (target_qubit D target) @ [m]), Suc m) rest"

text \<open>\<^verbatim>\<open>while (observables.size() <= obs) observables.push_back({})\<close>\<close>

definition grow_observables :: "nat list list \<Rightarrow> nat \<Rightarrow> nat list list" where
  "grow_observables observables obs =
     observables @ replicate (Suc obs - length observables) []"

record resolver_state =
  qubit_measure_indices :: "nat \<Rightarrow> nat list"
  m_count :: nat
  detectors :: "nat list list"
  observables :: "nat list list"

fun list_loop :: "decls \<Rightarrow> 32 word list \<Rightarrow> resolver_state \<Rightarrow> operation list \<Rightarrow> error + resolver_state" where
  "list_loop D arena st [] = Inr st"
| "list_loop D arena st (p # ps) =
     (if has_flag (op_gate p) GATE_PRODUCES_RESULTS then
        (let (qmi, m) = record_results D (qubit_measure_indices st, m_count st) (targets arena p)
         in list_loop D arena (st\<lparr>qubit_measure_indices := qmi, m_count := m\<rparr>) ps)
      else if gate_id (op_gate p) = gate_name_to_id D ''DETECTOR'' then
        (case resolve D (qubit_measure_indices st) (targets arena p) of
           Inl e \<Rightarrow> Inl e
         | Inr r \<Rightarrow> list_loop D arena (st\<lparr>detectors := detectors st @ [r]\<rparr>) ps)
      else if gate_id (op_gate p) = gate_name_to_id D ''OBSERVABLE_INCLUDE'' then
        (let obs = nat \<lfloor>op_arg p\<rfloor> in
         if of_nat obs \<noteq> op_arg p then Inl Observable_index_not_integer
         else
           let grown = grow_observables (observables st) obs in
           case resolve D (qubit_measure_indices st) (targets arena p) of
             Inl e \<Rightarrow> Inl e
           | Inr r \<Rightarrow> list_loop D arena (st\<lparr>observables := grown[obs := grown ! obs @ r]\<rparr>) ps)
      else list_loop D arena st ps)"

definition list_detectors_and_observables ::
  "decls \<Rightarrow> circuit \<Rightarrow> error + (nat list list \<times> nat list list)" where
  "list_detectors_and_observables D c =
     (case list_loop D (jagged_data c)
             \<lparr>qubit_measure_indices = (\<lambda>_. []), m_count = 0, detectors = [], observables = []\<rparr>
             (operations c) of
        Inl e \<Rightarrow> Inl e
      | Inr st \<Rightarrow> Inr (detectors st, observables st))"

section \<open>The parser\<close>

text \<open>
  The parser keeps one character of lookahead \<^verbatim>\<open>c\<close> and pulls the next one with
  \<^verbatim>\<open>read_char()\<close>. Here the lookahead and the unread input are one string: its head is
  \<^verbatim>\<open>c\<close>, its tail is what \<^verbatim>\<open>read_char\<close> will still deliver, and the empty string is
  \<^verbatim>\<open>c == EOF\<close>. \<^verbatim>\<open>c = read_char()\<close> drops the head.
\<close>

datatype READ_CONDITION =
    READ_AS_LITTLE_AS_POSSIBLE
  | READ_UNTIL_END_OF_BLOCK
  | READ_UNTIL_END_OF_FILE

definition in_range :: "char \<Rightarrow> char \<Rightarrow> char \<Rightarrow> bool" where
  "in_range lo hi c = ((of_char lo :: nat) \<le> of_char c \<and> (of_char c :: nat) \<le> of_char hi)"

definition is_digit :: "char \<Rightarrow> bool" where
  "is_digit c = in_range CHR ''0'' CHR ''9'' c"

definition isspace :: "char \<Rightarrow> bool" where
  "isspace c = (c = CHR '' '' \<or> c = CHR 0x09 \<or> c = CHR 0x0A \<or> c = CHR 0x0B \<or>
                c = CHR 0x0C \<or> c = CHR 0x0D)"

fun read_past_within_line_whitespace :: "string \<Rightarrow> string" where
  "read_past_within_line_whitespace [] = []"
| "read_past_within_line_whitespace (c # rest) =
     (if c = CHR '' '' \<or> c = CHR 0x09 then read_past_within_line_whitespace rest else c # rest)"

definition is_name_char :: "char \<Rightarrow> bool" where
  "is_name_char c =
     (in_range CHR ''A'' CHR ''Z'' c \<or> in_range CHR ''a'' CHR ''z'' c \<or>
      in_range CHR ''0'' CHR ''9'' c \<or> c = CHR ''_'')"

fun read_name_buf :: "string \<Rightarrow> string \<Rightarrow> string \<times> string" where
  "read_name_buf name_buf [] = (name_buf, [])"
| "read_name_buf name_buf (c # rest) =
     (if is_name_char c \<and> length name_buf < 32 then read_name_buf (name_buf @ [c]) rest
      else (name_buf, c # rest))"

definition read_gate_name :: "decls \<Rightarrow> string \<Rightarrow> error + (gate \<times> string)" where
  "read_gate_name D s =
     (case read_name_buf [] s of
        (name_buf, s1) \<Rightarrow>
          (case GATE_DATA_at D name_buf of
             None \<Rightarrow> Inl Unknown_gate
           | Some g \<Rightarrow> Inr (g, s1)))"

definition is_double_char :: "char \<Rightarrow> bool" where
  "is_double_char c =
     (in_range CHR ''0'' CHR ''9'' c \<or> c = CHR ''.'' \<or> c = CHR ''e'' \<or> c = CHR ''E'' \<or>
      c = CHR ''+'' \<or> c = CHR ''-'')"

fun read_double_buf :: "string \<Rightarrow> string \<Rightarrow> string \<times> string" where
  "read_double_buf buf [] = (buf, [])"
| "read_double_buf buf (c # rest) =
     (if length buf < 63 \<and> is_double_char c then read_double_buf (buf @ [c]) rest
      else (buf, c # rest))"

definition digit_value :: "char \<Rightarrow> nat" where
  "digit_value c = of_char c - of_char CHR ''0''"

definition decimal_value :: "string \<Rightarrow> nat" where
  "decimal_value ds = foldl (\<lambda>a d. 10 * a + digit_value d) 0 ds"

definition split_sign :: "string \<Rightarrow> bool \<times> string" where
  "split_sign s =
     (if s \<noteq> [] \<and> hd s = CHR ''+'' then (False, tl s)
      else if s \<noteq> [] \<and> hd s = CHR ''-'' then (True, tl s)
      else (False, s))"

text \<open>
  The C library's \<^verbatim>\<open>strtod\<close> on a buffer of the characters \<^verbatim>\<open>0-9 . e E + -\<close>, together
  with the test \<^verbatim>\<open>end != buf + n\<close> that follows it: \<open>Some v\<close> when the conversion consumes
  the whole buffer, \<open>None\<close> when it stops early. On the empty buffer no conversion is
  performed, \<^verbatim>\<open>end == buf\<close>, and the value is zero. The value is the exact decimal.
\<close>

definition strtod_all :: "string \<Rightarrow> rat option" where
  "strtod_all buf =
     (if buf = [] then Some 0
      else
        let (neg, r) = split_sign buf;
            ip = takeWhile is_digit r;
            r1 = dropWhile is_digit r;
            has_point = (r1 \<noteq> [] \<and> hd r1 = CHR ''.'');
            fp = (if has_point then takeWhile is_digit (tl r1) else []);
            r2 = (if has_point then dropWhile is_digit (tl r1) else r1);
            mant = (of_nat (decimal_value (ip @ fp)) :: rat) / 10 ^ length fp;
            sgn = (if neg then - 1 else 1)
        in if ip = [] \<and> fp = [] then None
           else if r2 = [] then Some (sgn * mant)
           else if hd r2 = CHR ''e'' \<or> hd r2 = CHR ''E'' then
             (let (eneg, ds) = split_sign (tl r2) in
              if ds \<noteq> [] \<and> list_all is_digit ds
              then Some (if eneg then sgn * mant / 10 ^ decimal_value ds
                         else sgn * mant * 10 ^ decimal_value ds)
              else None)
           else None)"

definition read_non_negative_double :: "string \<Rightarrow> error + (rat \<times> string)" where
  "read_non_negative_double s =
     (case read_double_buf [] s of
        (buf, s1) \<Rightarrow>
          (case strtod_all buf of
             None \<Rightarrow> Inl Not_a_non_negative_real
           | Some result \<Rightarrow>
               if \<not> result \<ge> 0 then Inl Not_a_non_negative_real else Inr (result, s1)))"

definition read_parens_argument :: "string \<Rightarrow> error + (rat \<times> string)" where
  "read_parens_argument s =
     (if s = [] \<or> hd s \<noteq> CHR ''('' then Inl Missing_parens_argument
      else
        case read_non_negative_double (read_past_within_line_whitespace (tl s)) of
          Inl e \<Rightarrow> Inl e
        | Inr (result, s1) \<Rightarrow>
            let s2 = read_past_within_line_whitespace s1 in
            if s2 = [] \<or> hd s2 \<noteq> CHR '')'' then Inl Missing_closing_parens
            else Inr (result, tl s2))"

text \<open>The body of the do-while loop of \<^verbatim>\<open>read_uint24_t\<close>; \<open>result\<close> is a \<^verbatim>\<open>uint32_t\<close>.\<close>

fun read_uint24_digits :: "32 word \<Rightarrow> string \<Rightarrow> error + (32 word \<times> string)" where
  "read_uint24_digits result [] = Inr (result, [])"
| "read_uint24_digits result (c # rest) =
     (let result1 = result * 10 + (of_char c - of_char CHR ''0'') in
      if result1 \<ge> push_bit 24 1 then Inl Number_too_large
      else if rest \<noteq> [] \<and> is_digit (hd rest) then read_uint24_digits result1 rest
      else Inr (result1, rest))"

definition read_uint24_t :: "string \<Rightarrow> error + (32 word \<times> string)" where
  "read_uint24_t s =
     (if s = [] \<or> \<not> is_digit (hd s) then Inl Expected_a_digit else read_uint24_digits 0 s)"

fun read_to_end_of_line :: "string \<Rightarrow> string" where
  "read_to_end_of_line [] = []"
| "read_to_end_of_line (c # rest) =
     (if c = CHR 0x0A then c # rest else read_to_end_of_line rest)"

definition read_until_next_line_arg :: "string \<Rightarrow> error + (bool \<times> string)" where
  "read_until_next_line_arg s =
     (if s \<noteq> [] \<and> hd s \<noteq> CHR '' '' \<and> hd s \<noteq> CHR ''#'' \<and> hd s \<noteq> CHR 0x09 \<and>
         hd s \<noteq> CHR 0x0A \<and> hd s \<noteq> CHR ''{''
      then Inl Targets_not_separated
      else
        let s1 = read_past_within_line_whitespace s;
            s2 = (if s1 \<noteq> [] \<and> hd s1 = CHR ''#'' then read_to_end_of_line (tl s1) else s1)
        in Inr (s2 \<noteq> [] \<and> hd s2 \<noteq> CHR 0x0A \<and> hd s2 \<noteq> CHR ''{'', s2))"

definition read_raw_qubit_target_into ::
  "decls \<Rightarrow> circuit \<Rightarrow> string \<Rightarrow> error + (circuit \<times> string)" where
  "read_raw_qubit_target_into D circ s =
     (case read_uint24_t s of
        Inl e \<Rightarrow> Inl e
      | Inr (q, s1) \<Rightarrow>
          Inr (circ\<lparr>jagged_data := jagged_data circ @ [q],
                    num_qubits := max (num_qubits circ) (unat q + 1)\<rparr>, s1))"

definition read_record_target_into ::
  "decls \<Rightarrow> bool \<Rightarrow> circuit \<Rightarrow> string \<Rightarrow> error + (circuit \<times> string)" where
  "read_record_target_into D required circ s =
     (case read_uint24_t s of
        Inl e \<Rightarrow> Inl e
      | Inr (q, s1) \<Rightarrow>
          let circ1 = circ\<lparr>num_qubits := max (num_qubits circ) (unat q + 1)\<rparr> in
          if s1 \<noteq> [] \<and> hd s1 = CHR ''@'' then
            (if tl s1 = [] \<or> hd (tl s1) \<noteq> CHR ''-'' then Inl Missing_minus_after_at
             else
               case read_uint24_t (tl (tl s1)) of
                 Inl e \<Rightarrow> Inl e
               | Inr (dt, s2) \<Rightarrow>
                   if dt = 0 then Inl Minimum_lookback
                   else if dt \<ge> 16 then Inl Maximum_lookback
                   else Inr (circ1\<lparr>jagged_data := jagged_data circ1 @
                                      [q OR push_bit (TARGET_RECORD_SHIFT D) dt]\<rparr>, s2))
          else if required then Inl Missing_at
          else Inr (circ1\<lparr>jagged_data := jagged_data circ1 @
                             [q OR push_bit (TARGET_RECORD_SHIFT D) 0]\<rparr>, s1))"

text \<open>The loop bodies of \<^verbatim>\<open>read_pauli_targets_into\<close> and \<^verbatim>\<open>read_result_targets_into\<close>.\<close>

definition read_pauli_target_into ::
  "decls \<Rightarrow> circuit \<Rightarrow> string \<Rightarrow> error + (circuit \<times> string)" where
  "read_pauli_target_into D circ s =
     (if s \<noteq> [] \<and> (hd s = CHR ''X'' \<or> hd s = CHR ''x'' \<or> hd s = CHR ''Y'' \<or> hd s = CHR ''y'' \<or>
                     hd s = CHR ''Z'' \<or> hd s = CHR ''z'')
      then
        let m = (if hd s = CHR ''X'' \<or> hd s = CHR ''x'' then TARGET_PAULI_X_MASK D
                 else if hd s = CHR ''Y'' \<or> hd s = CHR ''y''
                 then TARGET_PAULI_X_MASK D OR TARGET_PAULI_Z_MASK D
                 else TARGET_PAULI_Z_MASK D)
        in if tl s \<noteq> [] \<and> hd (tl s) = CHR '' '' then Inl Space_after_pauli
           else
             case read_uint24_t (tl s) of
               Inl e \<Rightarrow> Inl e
             | Inr (q, s1) \<Rightarrow>
                 Inr (circ\<lparr>jagged_data := jagged_data circ @ [q OR m],
                           num_qubits := max (num_qubits circ) (unat q + 1)\<rparr>, s1)
      else Inl Expected_a_pauli)"

definition read_result_target_into ::
  "decls \<Rightarrow> circuit \<Rightarrow> string \<Rightarrow> error + (circuit \<times> string)" where
  "read_result_target_into D circ s =
     (let flipped = (if s \<noteq> [] \<and> hd s = CHR ''!'' then push_bit 31 1 else 0 :: 32 word);
          s0 = (if flipped \<noteq> 0 then tl s else s)
      in case read_uint24_t s0 of
           Inl e \<Rightarrow> Inl e
         | Inr (q, s1) \<Rightarrow>
             Inr (circ\<lparr>num_qubits := max (num_qubits circ) (unat q + 1),
                       jagged_data := jagged_data circ @ [q XOR flipped],
                       num_measurements := num_measurements circ + 1\<rparr>, s1))"

text \<open>The loop body of the last branch of \<^verbatim>\<open>circuit_read_single_operation\<close>.\<close>

definition read_uint24_into :: "circuit \<Rightarrow> string \<Rightarrow> error + (circuit \<times> string)" where
  "read_uint24_into circ s =
     (case read_uint24_t s of
        Inl e \<Rightarrow> Inl e
      | Inr (q, s1) \<Rightarrow> Inr (circ\<lparr>jagged_data := jagged_data circ @ [q]\<rparr>, s1))"

text \<open>
  \<^verbatim>\<open>while (read_until_next_line_arg(c, read_char)) { body }\<close>, the loop of every
  \<^verbatim>\<open>read_..._targets_into\<close>. The first argument bounds the number of iterations; each
  iteration that reads a target consumes at least one character, so one more than the
  length of the input is never exhausted.
\<close>

fun while_next_line_arg ::
  "nat \<Rightarrow> (circuit \<Rightarrow> string \<Rightarrow> error + (circuit \<times> string)) \<Rightarrow> circuit \<Rightarrow> string \<Rightarrow>
   error + (circuit \<times> string)" where
  "while_next_line_arg 0 body circ s = Inl Out_of_fuel"
| "while_next_line_arg (Suc n) body circ s =
     (case read_until_next_line_arg s of
        Inl e \<Rightarrow> Inl e
      | Inr (has_next, s1) \<Rightarrow>
          if \<not> has_next then Inr (circ, s1)
          else (case body circ s1 of
                  Inl e \<Rightarrow> Inl e
                | Inr (circ1, s2) \<Rightarrow> while_next_line_arg n body circ1 s2))"

definition read_targets_into ::
  "(circuit \<Rightarrow> string \<Rightarrow> error + (circuit \<times> string)) \<Rightarrow> circuit \<Rightarrow> string \<Rightarrow>
   error + (circuit \<times> string)" where
  "read_targets_into body circ s = while_next_line_arg (Suc (length s)) body circ s"

definition read_raw_qubit_targets_into where
  "read_raw_qubit_targets_into D = read_targets_into (read_raw_qubit_target_into D)"

definition read_classically_controllable_qubit_targets_into where
  "read_classically_controllable_qubit_targets_into D =
     read_targets_into (read_record_target_into D False)"

definition read_pauli_targets_into where
  "read_pauli_targets_into D = read_targets_into (read_pauli_target_into D)"

definition read_result_targets_into where
  "read_result_targets_into D = read_targets_into (read_result_target_into D)"

definition read_record_targets_into where
  "read_record_targets_into D = read_targets_into (read_record_target_into D True)"

function read_past_dead_space_between_commands :: "string \<Rightarrow> string" where
  "read_past_dead_space_between_commands [] = []"
| "read_past_dead_space_between_commands (c # rest) =
     (if isspace c then read_past_dead_space_between_commands rest
      else if c \<noteq> CHR ''#'' then c # rest
      else read_past_dead_space_between_commands (read_to_end_of_line (c # rest)))"
  by pat_completeness auto
termination
proof (relation "measure length")
  have shorter: "length (read_to_end_of_line s) \<le> length s" for s
    by (induction s) auto
  fix c :: char and rest :: string
  assume "\<not> isspace c" and "\<not> c \<noteq> CHR ''#''"
  then have "read_to_end_of_line (c # rest) = read_to_end_of_line rest"
    by simp
  with shorter [of rest]
  show "(read_to_end_of_line (c # rest), c # rest) \<in> measure length"
    by simp
qed auto

text \<open>
  The if/else chain of \<^verbatim>\<open>circuit_read_single_operation\<close> that picks the reader of the
  targets from the flags of the gate.
\<close>

definition read_targets_of_gate ::
  "decls \<Rightarrow> gate \<Rightarrow> circuit \<Rightarrow> string \<Rightarrow> error + (circuit \<times> string)" where
  "read_targets_of_gate D g circ s =
     (if \<not> (has_flag g GATE_IS_BLOCK \<or>
             has_flag g GATE_ONLY_TARGETS_MEASUREMENT_RECORD \<or>
             has_flag g GATE_PRODUCES_RESULTS \<or>
             has_flag g GATE_TARGETS_PAULI_STRING \<or>
             has_flag g GATE_CAN_TARGET_MEASUREMENT_RECORD)
      then read_raw_qubit_targets_into D circ s
      else if has_flag g GATE_ONLY_TARGETS_MEASUREMENT_RECORD
      then read_record_targets_into D circ s
      else if has_flag g GATE_CAN_TARGET_MEASUREMENT_RECORD
      then read_classically_controllable_qubit_targets_into D circ s
      else if has_flag g GATE_PRODUCES_RESULTS
      then read_result_targets_into D circ s
      else if has_flag g GATE_TARGETS_PAULI_STRING
      then read_pauli_targets_into D circ s
      else read_targets_into read_uint24_into circ s)"

definition circuit_read_single_operation ::
  "decls \<Rightarrow> circuit \<Rightarrow> string \<Rightarrow> error + (circuit \<times> string)" where
  "circuit_read_single_operation D circ s =
     (case read_gate_name D s of
        Inl e \<Rightarrow> Inl e
      | Inr (g, s1) \<Rightarrow>
          (case (if has_flag g GATE_TAKES_PARENS_ARGUMENT
                 then read_parens_argument (read_past_within_line_whitespace s1)
                 else Inr (0, s1)) of
             Inl e \<Rightarrow> Inl e
           | Inr (val, s2) \<Rightarrow>
               (let offset = length (jagged_data circ) in
                case read_targets_of_gate D g circ s2 of
                  Inl e \<Rightarrow> Inl e
                | Inr (circ1, s3) \<Rightarrow>
                    if (s3 = [] \<or> hd s3 \<noteq> CHR ''{'') \<and> has_flag g GATE_IS_BLOCK
                    then Inl Missing_block_open
                    else if s3 \<noteq> [] \<and> hd s3 = CHR ''{'' \<and> \<not> has_flag g GATE_IS_BLOCK
                    then Inl Unexpected_block_open
                    else
                      let num_targets = length (jagged_data circ1) - offset in
                      if has_flag g GATE_TARGETS_PAIRS \<and> odd num_targets
                      then Inl Odd_number_of_targets
                      else if has_flag g GATE_TARGETS_PAIRS \<and>
                              interacts_with_itself
                                (take num_targets (drop offset (jagged_data circ1)))
                      then Inl Interacting_target_with_itself
                      else Inr (circ1\<lparr>operations := operations circ1 @
                                         [\<lparr>op_gate = g, op_arg = val, op_offset = offset,
                                           op_length = num_targets\<rparr>]\<rparr>, s3))))"

text \<open>
  \<^verbatim>\<open>circuit_read_operations\<close>: the do-while loop with its local \<^verbatim>\<open>can_fuse\<close>, and the
  recursive call for the body of a REPEAT block. The argument and the result string are
  the unread input (\<^verbatim>\<open>int c = read_char()\<close> opens every iteration, so the lookahead that
  \<^verbatim>\<open>circuit_read_single_operation\<close> stopped at is dropped). The first argument bounds the
  number of iterations and recursive calls together; every one of them consumes a
  character, so \<^verbatim>\<open>append_from_text\<close> passes one more than the length of the text.
\<close>

fun circuit_read_operations ::
  "nat \<Rightarrow> decls \<Rightarrow> bool \<Rightarrow> circuit \<Rightarrow> string \<Rightarrow> READ_CONDITION \<Rightarrow> error + (circuit \<times> string)" where
  "circuit_read_operations 0 D can_fuse_flag circ input read_condition = Inl Out_of_fuel"
| "circuit_read_operations (Suc fuel) D can_fuse_flag circ input read_condition =
     (let s0 = read_past_dead_space_between_commands input in
      if s0 = [] then
        (if read_condition = READ_UNTIL_END_OF_BLOCK then Inl Unterminated_block
         else Inr (circ, []))
      else if hd s0 = CHR ''}'' then
        (if read_condition \<noteq> READ_UNTIL_END_OF_BLOCK then Inl Uninitiated_block
         else Inr (circ, tl s0))
      else
        let s = length (operations circ) in
        case circuit_read_single_operation D circ s0 of
          Inl e \<Rightarrow> Inl e
        | Inr (circ1, s1) \<Rightarrow>
            if gate_id (op_gate (operations circ1 ! s)) = gate_name_to_id D ''REPEAT'' then
              (if op_length (operations circ1 ! s) \<noteq> 1 then Inl Invalid_repeat_instruction
               else
                 let rep_count = unat (last (jagged_data circ1));
                     circ2 = circ1\<lparr>jagged_data := butlast (jagged_data circ1),
                                   operations := butlast (operations circ1)\<rparr>
                 in if rep_count = 0 then Inl Repeating_zero_times
                    else
                      let ops_start = length (operations circ2);
                          num_measure_start = num_measurements circ2
                      in case circuit_read_operations fuel D False circ2 (tl s1)
                                READ_UNTIL_END_OF_BLOCK of
                           Inl e \<Rightarrow> Inl e
                         | Inr (circ3, input1) \<Rightarrow>
                             let ops_end = length (operations circ3);
                                 circ4 = circ3\<lparr>num_measurements := num_measurements circ3 +
                                           (num_measurements circ3 - num_measure_start) *
                                           (rep_count - 1)\<rparr>;
                                 circ5 = circ4\<lparr>operations :=
                                           insert_copies (rep_count - 1)
                                             (take (ops_end - ops_start)
                                                (drop ops_start (operations circ4)))
                                             (operations circ4)\<rparr>
                             in if read_condition = READ_AS_LITTLE_AS_POSSIBLE
                                then Inr (circ5, input1)
                                else circuit_read_operations fuel D False circ5 input1
                                       read_condition)
            else if can_fuse_flag \<and>
                    can_fuse (operations circ1 ! (s - 1)) (operations circ1 ! s) then
              (let ops = operations circ1;
                   fused = (ops ! (s - 1))\<lparr>op_length := op_length (ops ! (s - 1)) +
                                                          op_length (ops ! s)\<rparr>;
                   circ2 = circ1\<lparr>operations := butlast (ops[s - 1 := fused])\<rparr>
               in if read_condition = READ_AS_LITTLE_AS_POSSIBLE then Inr (circ2, tl s1)
                  else circuit_read_operations fuel D can_fuse_flag circ2 (tl s1) read_condition)
            else
              (if read_condition = READ_AS_LITTLE_AS_POSSIBLE then Inr (circ1, tl s1)
               else circuit_read_operations fuel D True circ1 (tl s1) read_condition))"

text \<open>
  \<^verbatim>\<open>append_from_text\<close> returns whether operations were added; \<^verbatim>\<open>from_text\<close> starts from
  the empty circuit.
\<close>

definition append_from_text :: "decls \<Rightarrow> circuit \<Rightarrow> string \<Rightarrow> error + (bool \<times> circuit)" where
  "append_from_text D circ text =
     (let before_size = length (operations circ) in
      case circuit_read_operations (Suc (length text)) D False circ text
             READ_UNTIL_END_OF_FILE of
        Inl e \<Rightarrow> Inl e
      | Inr (circ1, _) \<Rightarrow> Inr (length (operations circ1) > before_size, circ1))"

definition from_text :: "decls \<Rightarrow> string \<Rightarrow> error + circuit" where
  "from_text D text =
     (case append_from_text D empty_circuit text of
        Inl e \<Rightarrow> Inl e
      | Inr (_, result) \<Rightarrow> Inr result)"

section \<open>Textual rendering\<close>

fun show_nat :: "nat \<Rightarrow> string" where
  "show_nat n =
     (if n < 10 then [char_of (n + of_char CHR ''0'')]
      else show_nat (n div 10) @ [char_of (n mod 10 + of_char CHR ''0'')])"

text \<open>
  \<^verbatim>\<open>operator<<\<close> on an operation. An argument that is not a whole number is written by the
  stream's formatting of a \<^verbatim>\<open>double\<close>, the parameter \<open>show_double\<close> here.
\<close>

definition show_target :: "decls \<Rightarrow> gate \<Rightarrow> 32 word \<Rightarrow> string" where
  "show_target D g t =
     (if has_flag g GATE_PRODUCES_RESULTS then
        (if t AND push_bit 31 1 \<noteq> 0 then [CHR ''!''] else []) @
        show_nat (unat (t AND NOT (push_bit 31 1)))
      else if has_flag g GATE_TARGETS_PAULI_STRING then
        (let x = (if t AND TARGET_PAULI_X_MASK D \<noteq> 0 then 1 else 0 :: nat);
             z = (if t AND TARGET_PAULI_Z_MASK D \<noteq> 0 then 1 else 0 :: nat)
         in [''IXZY'' ! (x + z * 2)] @ show_nat (unat (t AND TARGET_QUBIT_MASK D)))
      else
        show_nat (unat (t AND TARGET_QUBIT_MASK D)) @
        (if t AND TARGET_RECORD_MASK D \<noteq> 0
         then ''@-'' @ show_nat (unat (drop_bit (TARGET_RECORD_SHIFT D)
                                          (t AND TARGET_RECORD_MASK D)))
         else []))"

definition operation_str :: "decls \<Rightarrow> (rat \<Rightarrow> string) \<Rightarrow> 32 word list \<Rightarrow> operation \<Rightarrow> string" where
  "operation_str D show_double arena op =
     gate_name (op_gate op) @
     (if op_arg op \<noteq> 0 then
        ''('' @ (if of_nat (nat \<lfloor>op_arg op\<rfloor>) = op_arg op then show_nat (nat \<lfloor>op_arg op\<rfloor>)
                else show_double (op_arg op)) @ '')''
      else []) @
     concat (map (\<lambda>t. '' '' @ show_target D (op_gate op) t) (targets arena op))"

definition circuit_str :: "decls \<Rightarrow> (rat \<Rightarrow> string) \<Rightarrow> circuit \<Rightarrow> string" where
  "circuit_str D show_double c =
     ''# Circuit [num_qubits='' @ show_nat (num_qubits c) @ '', num_measurements='' @
     show_nat (num_measurements c) @ '']'' @
     concat (map (\<lambda>op. [CHR 0x0A] @ operation_str D show_double (jagged_data c) op)
               (operations c))"

section \<open>A gate table and a target layout to run the definitions on\<close>

text \<open>
  Modelled from the spec: gate_data.h and the mask macros of circuit.h are not among the
  sources. The gates are the ones the spec names (H, X, Y, CNOT, M, DETECTOR,
  OBSERVABLE_INCLUDE, REPEAT) and one noise gate that takes a parens argument, with the
  flags the spec's scenarios show; CNOT is a pair gate that can be classically controlled,
  the kind of gate \<^verbatim>\<open>read_classically_controllable_qubit_targets_into\<close> exists for. The
  lookup ignores case. The masks follow the spec's layout of the target word: bits 0-23
  the qubit, bit 24 Pauli X, bit 25 Pauli Z, bits 28-30 the record lookback, bit 31 the
  inversion. The general theorems below do not depend on any of these choices.
\<close>

definition spec_gates :: "gate list" where
  "spec_gates =
     [\<lparr>gate_id = 1, gate_name = ''H'', gate_flags = {}\<rparr>,
      \<lparr>gate_id = 2, gate_name = ''X'', gate_flags = {}\<rparr>,
      \<lparr>gate_id = 3, gate_name = ''Y'', gate_flags = {}\<rparr>,
      \<lparr>gate_id = 4, gate_name = ''CNOT'',
       gate_flags = {GATE_TARGETS_PAIRS, GATE_CAN_TARGET_MEASUREMENT_RECORD}\<rparr>,
      \<lparr>gate_id = 5, gate_name = ''M'', gate_flags = {GATE_PRODUCES_RESULTS}\<rparr>,
      \<lparr>gate_id = 6, gate_name = ''DETECTOR'',
       gate_flags = {GATE_ONLY_TARGETS_MEASUREMENT_RECORD, GATE_IS_NOT_FUSABLE}\<rparr>,
      \<lparr>gate_id = 7, gate_name = ''OBSERVABLE_INCLUDE'',
       gate_flags = {GATE_ONLY_TARGETS_MEASUREMENT_RECORD, GATE_TAKES_PARENS_ARGUMENT,
                     GATE_IS_NOT_FUSABLE}\<rparr>,
      \<lparr>gate_id = 8, gate_name = ''REPEAT'', gate_flags = {GATE_IS_BLOCK, GATE_IS_NOT_FUSABLE}\<rparr>,
      \<lparr>gate_id = 9, gate_name = ''X_ERROR'', gate_flags = {GATE_TAKES_PARENS_ARGUMENT}\<rparr>]"

definition to_upper :: "char \<Rightarrow> char" where
  "to_upper c = (if in_range CHR ''a'' CHR ''z'' c then char_of (of_char c - (32 :: nat)) else c)"

definition spec_at :: "string \<Rightarrow> gate option" where
  "spec_at name = find (\<lambda>g. gate_name g = map to_upper name) spec_gates"

definition spec_decls :: decls where
  "spec_decls =
     \<lparr>GATE_DATA_at = spec_at,
      gate_name_to_id = (\<lambda>name. case spec_at name of None \<Rightarrow> 0 | Some g \<Rightarrow> gate_id g),
      TARGET_QUBIT_MASK = 0xFFFFFF,
      TARGET_RECORD_MASK = 0x70000000,
      TARGET_RECORD_SHIFT = 28,
      TARGET_PAULI_X_MASK = 0x1000000,
      TARGET_PAULI_Z_MASK = 0x2000000,
      TARGET_INVERTED_MASK = 0x80000000\<rparr>"

section \<open>Properties\<close>

subsection \<open>Notions the properties are stated with\<close>

text \<open>The measurement count the operation list stands for: the targets of its result-producing operations.\<close>

definition count_measurements :: "circuit \<Rightarrow> nat" where
  "count_measurements c =
     sum_list (map op_length
       (filter (\<lambda>op. has_flag (op_gate op) GATE_PRODUCES_RESULTS) (operations c)))"

fun no_adjacent_fusable :: "operation list \<Rightarrow> bool" where
  "no_adjacent_fusable (a # b # rest) = (\<not> can_fuse a b \<and> no_adjacent_fusable (b # rest))"
| "no_adjacent_fusable _ = True"

text \<open>The circuits \<^verbatim>\<open>H 0\<close> and \<^verbatim>\<open>M 0\<close>, as the parser builds them.\<close>

definition circuit_H0 :: circuit where
  "circuit_H0 =
     \<lparr>jagged_data = [0],
      operations = [\<lparr>op_gate = \<lparr>gate_id = 1, gate_name = ''H'', gate_flags = {}\<rparr>,
                     op_arg = 0, op_offset = 0, op_length = 1\<rparr>],
      num_qubits = 1, num_measurements = 0\<rparr>"

definition circuit_M0 :: circuit where
  "circuit_M0 =
     \<lparr>jagged_data = [0],
      operations = [\<lparr>op_gate = \<lparr>gate_id = 5, gate_name = ''M'',
                                 gate_flags = {GATE_PRODUCES_RESULTS}\<rparr>,
                     op_arg = 0, op_offset = 0, op_length = 1\<rparr>],
      num_qubits = 1, num_measurements = 1\<rparr>"

subsection \<open>What the detector and observable pass is to compute\<close>

definition produces_results :: "operation \<Rightarrow> bool" where
  "produces_results p = has_flag (op_gate p) GATE_PRODUCES_RESULTS"

text \<open>
  The targets of the result-producing operations in program order: the target at
  position \<open>k\<close> of this list is the measurement with global index \<open>k\<close>.
\<close>

definition result_targets :: "32 word list \<Rightarrow> operation list \<Rightarrow> 32 word list" where
  "result_targets arena ops = concat (map (targets arena) (filter produces_results ops))"

text \<open>The measurement-index list of a qubit: the global indices of its measurements, in order.\<close>

definition measurements_from :: "decls \<Rightarrow> nat \<Rightarrow> 32 word list \<Rightarrow> nat \<Rightarrow> nat list" where
  "measurements_from D start rs q =
     map fst (filter (\<lambda>kt. target_qubit D (snd kt) = q) (enumerate start rs))"

definition qubit_measurements :: "decls \<Rightarrow> 32 word list \<Rightarrow> nat \<Rightarrow> nat list" where
  "qubit_measurements D rs q = measurements_from D 0 rs q"


definition is_detector :: "decls \<Rightarrow> operation \<Rightarrow> bool" where
  "is_detector D p = (gate_id (op_gate p) = gate_name_to_id D ''DETECTOR'')"

definition is_observable_include :: "decls \<Rightarrow> operation \<Rightarrow> bool" where
  "is_observable_include D p = (gate_id (op_gate p) = gate_name_to_id D ''OBSERVABLE_INCLUDE'')"








text \<open>The circuit \<^verbatim>\<open>DETECTOR 0@-1\<close>, as the parser builds it.\<close>

definition detector_op :: operation where
  "detector_op =
     \<lparr>op_gate = \<lparr>gate_id = 6, gate_name = ''DETECTOR'',
                 gate_flags = {GATE_ONLY_TARGETS_MEASUREMENT_RECORD, GATE_IS_NOT_FUSABLE}\<rparr>,
      op_arg = 0, op_offset = 0, op_length = 1\<rparr>"

definition circuit_lone_detector :: circuit where
  "circuit_lone_detector =
     \<lparr>jagged_data = [0x10000000], operations = [detector_op],
      num_qubits = 1, num_measurements = 0\<rparr>"






subsection \<open>What every reader of one target does\<close>

text \<open>
  A loop body of \<^verbatim>\<open>read_..._targets_into\<close> consumes at least one character, leaves the
  operations alone and pushes one word on the arena.
\<close>

definition reads_one_target :: "(circuit \<Rightarrow> string \<Rightarrow> error + (circuit \<times> string)) \<Rightarrow> bool" where
  "reads_one_target body =
     (\<forall>circ s circ1 s1. body circ s = Inr (circ1, s1) \<longrightarrow>
        suffix s1 s \<and> length s1 < length s \<and> operations circ1 = operations circ \<and>
        (\<exists>w. jagged_data circ1 = jagged_data circ @ [w]))"

subsection \<open>The circuits between the steps of \<^verbatim>\<open>circuit_read_operations\<close>\<close>

text \<open>After \<^verbatim>\<open>jagged_data.pop_back(); ops.pop_back()\<close> in the REPEAT branch.\<close>

definition repeat_popped :: "circuit \<Rightarrow> circuit" where
  "repeat_popped circ1 =
     circ1\<lparr>jagged_data := butlast (jagged_data circ1), operations := butlast (operations circ1)\<rparr>"

text \<open>After the measurement count and the operations of the block have been multiplied.\<close>

definition repeat_expanded :: "nat \<Rightarrow> nat \<Rightarrow> nat \<Rightarrow> circuit \<Rightarrow> circuit" where
  "repeat_expanded rep_count ops_start num_measure_start circ3 =
     circ3\<lparr>num_measurements := num_measurements circ3 +
              (num_measurements circ3 - num_measure_start) * (rep_count - 1),
           operations := insert_copies (rep_count - 1)
              (take (length (operations circ3) - ops_start) (drop ops_start (operations circ3)))
              (operations circ3)\<rparr>"

text \<open>After the operation at position \<open>s\<close> has been merged into the one before it.\<close>

definition fused_back :: "nat \<Rightarrow> circuit \<Rightarrow> circuit" where
  "fused_back s circ1 =
     circ1\<lparr>operations :=
       butlast ((operations circ1)
         [s - 1 := (operations circ1 ! (s - 1))
            \<lparr>op_length := op_length (operations circ1 ! (s - 1)) +
                          op_length (operations circ1 ! s)\<rparr>])\<rparr>"

text \<open>The end of an iteration: \<^verbatim>\<open>while (read_condition != READ_AS_LITTLE_AS_POSSIBLE)\<close>.\<close>

definition continue_reading ::
  "nat \<Rightarrow> decls \<Rightarrow> bool \<Rightarrow> circuit \<Rightarrow> string \<Rightarrow> READ_CONDITION \<Rightarrow> error + (circuit \<times> string)" where
  "continue_reading fuel D can_fuse_flag circ input read_condition =
     (if read_condition = READ_AS_LITTLE_AS_POSSIBLE then Inr (circ, input)
      else circuit_read_operations fuel D can_fuse_flag circ input read_condition)"

subsection \<open>Sequences of builder calls\<close>

text \<open>
  A sequence of \<^verbatim>\<open>append_op\<close> calls with \<^verbatim>\<open>allow_fusing\<close> set, each given by its gate
  name, targets and argument; the sequence ends at the first call that throws.
\<close>

fun append_ops :: "decls \<Rightarrow> circuit \<Rightarrow> (string \<times> 32 word list \<times> rat) list \<Rightarrow> error option \<times> circuit" where
  "append_ops D c [] = (None, c)"
| "append_ops D c ((name, vec, arg) # calls) =
     (case append_op D c name vec arg True of
        (Some e, c1) \<Rightarrow> (Some e, c1)
      | (None, c1) \<Rightarrow> append_ops D c1 calls)"

text \<open>
  In the source an operation points at its gate in the table, and the id of a gate names
  it: two entries of the table with the same id are the same gate.
\<close>

definition ids_name_gates :: "decls \<Rightarrow> bool" where
  "ids_name_gates D =
     (\<forall>n1 n2 g1 g2. GATE_DATA_at D n1 = Some g1 \<and> GATE_DATA_at D n2 = Some g2 \<and>
        gate_id g1 = gate_id g2 \<longrightarrow> g1 = g2)"

definition gates_from_table :: "decls \<Rightarrow> operation list \<Rightarrow> bool" where
  "gates_from_table D ops = list_all (\<lambda>op. \<exists>n. GATE_DATA_at D n = Some (op_gate op)) ops"

text \<open>The text \<^verbatim>\<open>REPEAT 2 { H 0 }\<close> on three lines, and the circuit the parser builds from it.\<close>

definition repeat_twice_text :: string where
  "repeat_twice_text = ''REPEAT 2 {'' @ [CHR 0x0A] @ ''H 0'' @ [CHR 0x0A] @ ''}'' @ [CHR 0x0A]"

definition circuit_H0_H0 :: circuit where
  "circuit_H0_H0 =
     \<lparr>jagged_data = [0],
      operations = [\<lparr>op_gate = \<lparr>gate_id = 1, gate_name = ''H'', gate_flags = {}\<rparr>,
                     op_arg = 0, op_offset = 0, op_length = 1\<rparr>,
                    \<lparr>op_gate = \<lparr>gate_id = 1, gate_name = ''H'', gate_flags = {}\<rparr>,
                     op_arg = 0, op_offset = 0, op_length = 1\<rparr>],
      num_qubits = 1, num_measurements = 0\<rparr>"

text \<open>The text \<^verbatim>\<open>X 0\<close>, \<^verbatim>\<open>X 1\<close>, \<^verbatim>\<open>Y 2\<close> of the spec's fusion scenario and its circuit.\<close>

definition fusion_scenario_text :: string where
  "fusion_scenario_text = ''X 0'' @ [CHR 0x0A] @ ''X 1'' @ [CHR 0x0A] @ ''Y 2'' @ [CHR 0x0A]"

definition fusion_scenario :: circuit where
  "fusion_scenario =
     \<lparr>jagged_data = [0, 1, 2],
      operations = [\<lparr>op_gate = \<lparr>gate_id = 2, gate_name = ''X'', gate_flags = {}\<rparr>,
                     op_arg = 0, op_offset = 0, op_length = 2\<rparr>,
                    \<lparr>op_gate = \<lparr>gate_id = 3, gate_name = ''Y'', gate_flags = {}\<rparr>,
                     op_arg = 0, op_offset = 2, op_length = 1\<rparr>],
      num_qubits = 3, num_measurements = 0\<rparr>"

subsection \<open>REPEAT blocks\<close>







subsection \<open>Circuits in the form the rendering preserves\<close>

text \<open>
  A target word as the parser builds it for a gate of these flags, with the fields that
  the printer reads off it: a record target is a qubit below \<open>2^24\<close> and a lookback below
  16 that the masks give back; a result target is a qubit and the inversion bit 31; a
  Pauli target is a qubit and one of X, Z or both; any other target is a plain qubit.
\<close>

definition target_as_parsed :: "decls \<Rightarrow> gate \<Rightarrow> 32 word \<Rightarrow> bool" where
  "target_as_parsed D g t =
     (if has_flag g GATE_ONLY_TARGETS_MEASUREMENT_RECORD \<or>
         has_flag g GATE_CAN_TARGET_MEASUREMENT_RECORD then
        (let q = t AND TARGET_QUBIT_MASK D;
             dt = drop_bit (TARGET_RECORD_SHIFT D) (t AND TARGET_RECORD_MASK D)
         in \<not> has_flag g GATE_PRODUCES_RESULTS \<and> \<not> has_flag g GATE_TARGETS_PAULI_STRING \<and>
            unat q < 2 ^ 24 \<and> unat dt < 16 \<and> t = q OR push_bit (TARGET_RECORD_SHIFT D) dt \<and>
            (t AND TARGET_RECORD_MASK D \<noteq> 0) = (dt \<noteq> 0) \<and>
            (dt \<noteq> 0 \<or> \<not> has_flag g GATE_ONLY_TARGETS_MEASUREMENT_RECORD))
      else if has_flag g GATE_PRODUCES_RESULTS then unat (t AND NOT (push_bit 31 1)) < 2 ^ 24
      else if has_flag g GATE_TARGETS_PAULI_STRING then
        (let q = t AND TARGET_QUBIT_MASK D;
             x = (t AND TARGET_PAULI_X_MASK D \<noteq> 0);
             z = (t AND TARGET_PAULI_Z_MASK D \<noteq> 0)
         in unat q < 2 ^ 24 \<and> (x \<or> z) \<and>
            t = q OR (if x \<and> z then TARGET_PAULI_X_MASK D OR TARGET_PAULI_Z_MASK D
                      else if x then TARGET_PAULI_X_MASK D else TARGET_PAULI_Z_MASK D))
      else unat t < 2 ^ 24 \<and> t AND TARGET_QUBIT_MASK D = t \<and> t AND TARGET_RECORD_MASK D = 0)"

text \<open>The qubit index the parser reads for a target, the one \<^verbatim>\<open>num_qubits\<close> counts.\<close>

definition target_index :: "decls \<Rightarrow> gate \<Rightarrow> 32 word \<Rightarrow> nat" where
  "target_index D g t =
     (if has_flag g GATE_PRODUCES_RESULTS \<and>
         \<not> (has_flag g GATE_ONLY_TARGETS_MEASUREMENT_RECORD \<or>
            has_flag g GATE_CAN_TARGET_MEASUREMENT_RECORD)
      then unat (t AND NOT (push_bit 31 1)) else unat (t AND TARGET_QUBIT_MASK D))"

text \<open>
  An operation whose line the parser reads back: its gate stands in the table under its
  own name and is no block; its targets lie in the arena and are as parsed; a pair gate
  has whole pairs of different words; a parens argument is there exactly for a gate that
  takes one, as a whole number that is not zero (and fits the buffer of 63 characters).
\<close>

definition renderable_operation :: "decls \<Rightarrow> 32 word list \<Rightarrow> operation \<Rightarrow> bool" where
  "renderable_operation D arena op =
     (let g = op_gate op; ts = targets arena op in
      GATE_DATA_at D (gate_name g) = Some g \<and> gate_name g \<noteq> [] \<and>
      list_all is_name_char (gate_name g) \<and> length (gate_name g) \<le> 32 \<and>
      \<not> has_flag g GATE_IS_BLOCK \<and> gate_id g \<noteq> gate_name_to_id D ''REPEAT'' \<and>
      length ts = op_length op \<and> list_all (target_as_parsed D g) ts \<and>
      (\<not> has_flag g GATE_TARGETS_PAIRS \<or> (even (length ts) \<and> \<not> interacts_with_itself ts)) \<and>
      (if has_flag g GATE_TAKES_PARENS_ARGUMENT
       then op_arg op \<noteq> 0 \<and> op_arg op = of_nat (nat \<lfloor>op_arg op\<rfloor>) \<and>
            length (show_nat (nat \<lfloor>op_arg op\<rfloor>)) \<le> 63
       else op_arg op = 0))"

definition qubits_needed :: "decls \<Rightarrow> circuit \<Rightarrow> nat" where
  "qubits_needed D c =
     foldl max 0
       (concat (map (\<lambda>op. map (\<lambda>t. target_index D (op_gate op) t + 1)
                              (targets (jagged_data c) op)) (operations c)))"

text \<open>
  The canonical circuits: every operation is renderable, no two neighbours are fusable,
  and the two counters say what the operations say.
\<close>

definition canonical :: "decls \<Rightarrow> circuit \<Rightarrow> bool" where
  "canonical D c =
     (list_all (renderable_operation D (jagged_data c)) (operations c) \<and>
      no_adjacent_fusable (operations c) \<and>
      num_qubits c = qubits_needed D c \<and> num_measurements c = count_measurements c)"

text \<open>What reading one target of a gate adds to a circuit.\<close>

definition with_target :: "decls \<Rightarrow> gate \<Rightarrow> circuit \<Rightarrow> 32 word \<Rightarrow> circuit" where
  "with_target D g circ t =
     circ\<lparr>jagged_data := jagged_data circ @ [t],
          num_qubits := max (num_qubits circ) (target_index D g t + 1),
          num_measurements := num_measurements circ +
            (if has_flag g GATE_PRODUCES_RESULTS then 1 else 0)\<rparr>"

text \<open>
  What reading the line of one operation adds to a circuit: the operation's targets at the
  end of the arena, the operation with that slice, and the two counters brought up to date.
\<close>

definition with_line :: "decls \<Rightarrow> 32 word list \<Rightarrow> circuit \<Rightarrow> operation \<Rightarrow> circuit" where
  "with_line D arena circ op =
     \<lparr>jagged_data = jagged_data circ @ targets arena op,
      operations = operations circ @
        [\<lparr>op_gate = op_gate op, op_arg = op_arg op, op_offset = length (jagged_data circ),
          op_length = length (targets arena op)\<rparr>],
      num_qubits = foldl max (num_qubits circ)
        (map (\<lambda>t. target_index D (op_gate op) t + 1) (targets arena op)),
      num_measurements = num_measurements circ +
        (if has_flag (op_gate op) GATE_PRODUCES_RESULTS then length (targets arena op) else 0)\<rparr>"

text \<open>The lines of a rendering after its header: a newline before every operation.\<close>

definition rendered_lines :: "decls \<Rightarrow> (rat \<Rightarrow> string) \<Rightarrow> 32 word list \<Rightarrow> operation list \<Rightarrow> string" where
  "rendered_lines D show_double arena ops =
     concat (map (\<lambda>op. [CHR 0x0A] @ operation_str D show_double arena op) ops)"

subsection \<open>Evaluating the table\<close>

lemma spec_at_simps:
  "spec_at ''H'' = Some \<lparr>gate_id = 1, gate_name = ''H'', gate_flags = {}\<rparr>"
  "spec_at ''M'' = Some \<lparr>gate_id = 5, gate_name = ''M'', gate_flags = {GATE_PRODUCES_RESULTS}\<rparr>"
  "spec_at ''CNOT'' = Some \<lparr>gate_id = 4, gate_name = ''CNOT'',
     gate_flags = {GATE_TARGETS_PAIRS, GATE_CAN_TARGET_MEASUREMENT_RECORD}\<rparr>"
  by (simp_all add: spec_at_def spec_gates_def to_upper_def in_range_def)

lemma parse_H0: "from_text spec_decls ''H 0'' = Inr circuit_H0"
  by code_simp

lemma parse_M0: "from_text spec_decls ''M 0'' = Inr circuit_M0"
  by code_simp

subsection \<open>Repetition count zero\<close>

text \<open>
  C8, as the spec states it: appending a circuit with repetition count 0 clears the target
  circuit. It does not: \<^verbatim>\<open>append_circuit\<close> returns at once when the count is 0. Appending
  the circuit \<^verbatim>\<open>M 0\<close> zero times to the circuit \<^verbatim>\<open>H 0\<close> leaves \<^verbatim>\<open>H 0\<close> with its operation,
  its arena word and its qubit.
\<close>

theorem append_circuit_zero_keeps_counterexample:
  "operations (append_circuit spec_decls circuit_H0 (Other circuit_M0) 0) \<noteq> [] \<and>
   jagged_data (append_circuit spec_decls circuit_H0 (Other circuit_M0) 0) \<noteq> [] \<and>
   num_qubits (append_circuit spec_decls circuit_H0 (Other circuit_M0) 0) \<noteq> 0"
  by (simp add: append_circuit_def circuit_H0_def)

text \<open>
  C8, amended: \<^verbatim>\<open>append_circuit\<close> with repetition count 0 leaves the target circuit as
  it was, whatever the source; the in-place repetition \<^verbatim>\<open>C *= 0\<close> is what clears it, after
  which the circuit has no operations, an empty arena, \<^verbatim>\<open>num_qubits = 0\<close> and
  \<^verbatim>\<open>num_measurements = 0\<close>.
\<close>

theorem repetition_zero:
  "append_circuit D c src 0 = c \<and>
   operations (times_assign D c 0) = [] \<and> jagged_data (times_assign D c 0) = [] \<and>
   num_qubits (times_assign D c 0) = 0 \<and> num_measurements (times_assign D c 0) = 0"
  by (simp add: append_circuit_def times_assign_def clear_def)

subsection \<open>A failing \<^verbatim>\<open>append_op\<close> changes nothing\<close>

text \<open>
  C10: when \<^verbatim>\<open>append_op\<close> throws (unknown gate name, odd target count or self-interaction
  for a pair gate, nonzero argument on a gate without parens argument, a target word with
  flag bits outside the gate's mask), the circuit afterwards is the circuit before the
  call: every check precedes every mutation.
\<close>

theorem append_op_atomic:
  "fst (append_op D c name vec arg allow_fusing) = Some e \<Longrightarrow>
   snd (append_op D c name vec arg allow_fusing) = c"
  by (auto simp: append_op_def Let_def split: option.splits if_splits)

theorem append_op_atomic_witness:
  "fst (append_op spec_decls circuit_H0 ''CNOT'' [0, 0] 0 True) = Some Interacting_target_with_itself \<and>
   snd (append_op spec_decls circuit_H0 ''CNOT'' [0, 0] 0 True) = circuit_H0"
proof -
  have fails: "fst (append_op spec_decls circuit_H0 ''CNOT'' [0, 0] 0 True) =
      Some Interacting_target_with_itself"
    by (simp add: append_op_def spec_decls_def spec_at_simps has_flag_def)
  from append_op_atomic [OF fails] fails show ?thesis by simp
qed

subsection \<open>Measurement accounting\<close>

text \<open>
  C3 says that \<^verbatim>\<open>num_measurements\<close> is the number of targets of the result-producing
  operations after any builder call. \<^verbatim>\<open>append_circuit\<close> with another circuit and a
  repetition count above 1 copies the appended operations again without counting them
  again (the branch for the circuit itself and the parser's REPEAT both do count them):
  appending \<^verbatim>\<open>M 0\<close> twice to the empty circuit gives two measurement operations and
  \<^verbatim>\<open>num_measurements = 1\<close>.
\<close>

theorem append_circuit_twice_undercounts:
  "num_measurements (append_circuit spec_decls empty_circuit (Other circuit_M0) 2) = 1 \<and>
   count_measurements (append_circuit spec_decls empty_circuit (Other circuit_M0) 2) = 2"
  by (simp add: append_circuit_def append_operation_def circuit_incremental_update_from_back_def
      circuit_M0_def empty_circuit_def count_measurements_def has_flag_def targets_def
      numeral_2_eq_2)

subsection \<open>The detector and observable pass\<close>

lemma list_loop_append:
  "list_loop D arena st (xs @ ys) =
     (case list_loop D arena st xs of Inl e \<Rightarrow> Inl e | Inr st1 \<Rightarrow> list_loop D arena st1 ys)"
proof (induction xs arbitrary: st)
  case Nil
  show ?case by simp
next
  case (Cons p ps)
  show ?case
    by (simp add: Cons.IH Let_def split: prod.splits sum.splits)
qed

lemma record_results_eq:
  "record_results D (qmi, m) ts =
     (\<lambda>q. qmi q @ measurements_from D m ts q, m + length ts)"
proof (induction ts arbitrary: qmi m)
  case Nil
  show ?case by (simp add: measurements_from_def)
next
  case (Cons t ts)
  show ?case
    by (simp add: Cons.IH measurements_from_def fun_eq_iff)
qed

lemma measurements_from_append:
  "measurements_from D m (xs @ ys) q =
     measurements_from D m xs q @ measurements_from D (m + length xs) ys q"
  by (simp add: measurements_from_def enumerate_append_eq)

lemma resolve_fails:
  "t \<in> set ts \<Longrightarrow>
   target_lookback D t = 0 \<or> target_lookback D t > length (qmi (target_qubit D t)) \<Longrightarrow>
   \<exists>e. resolve D qmi ts = Inl e"
  by (induction ts) (auto simp: Let_def split: sum.splits)

lemma list_loop_state:
  "list_loop D arena st xs = Inr st1 \<Longrightarrow>
   qubit_measure_indices st1 =
     (\<lambda>q. qubit_measure_indices st q @
           measurements_from D (m_count st) (result_targets arena xs) q) \<and>
   m_count st1 = m_count st + length (result_targets arena xs)"
proof (induction xs arbitrary: st)
  case Nil
  then show ?case by (simp add: result_targets_def measurements_from_def)
next
  case (Cons p ps)
  show ?case
  proof (cases "produces_results p")
    case True
    with Cons.prems have run:
      "list_loop D arena
         (st\<lparr>qubit_measure_indices :=
               (\<lambda>q. qubit_measure_indices st q @ measurements_from D (m_count st) (targets arena p) q),
             m_count := m_count st + length (targets arena p)\<rparr>) ps = Inr st1"
      by (simp add: produces_results_def record_results_eq)
    from Cons.IH [OF run] True show ?thesis
      by (simp add: result_targets_def measurements_from_append fun_eq_iff)
  next
    case False
    then have rt: "result_targets arena (p # ps) = result_targets arena ps"
      by (simp add: result_targets_def)
    from Cons.prems False obtain st2 where
      run: "list_loop D arena st2 ps = Inr st1" and
      same: "qubit_measure_indices st2 = qubit_measure_indices st" "m_count st2 = m_count st"
      by (auto simp: produces_results_def Let_def split: if_splits sum.splits)
    from Cons.IH [OF run] same rt show ?thesis by simp
  qed
qed

subsection \<open>Record targets out of range\<close>

lemma parse_lone_detector: "from_text spec_decls ''DETECTOR 0@-1'' = Inr circuit_lone_detector"
  by code_simp

lemma spec_ids:
  "gate_name_to_id spec_decls ''DETECTOR'' = 6"
  "gate_name_to_id spec_decls ''OBSERVABLE_INCLUDE'' = 7"
  "gate_name_to_id spec_decls ''REPEAT'' = 8"
  by (simp_all add: spec_decls_def spec_at_def spec_gates_def to_upper_def in_range_def)

text \<open>
  C9: the resolver fails on a record target whose lookback is 0 and on one whose lookback
  exceeds the number of measurements recorded so far on its qubit, wherever the DETECTOR
  or OBSERVABLE_INCLUDE operation stands in the circuit; so a circuit whose first
  operation is \<^verbatim>\<open>DETECTOR 0@-1\<close> is rejected.
\<close>

theorem resolver_rejects_bad_lookback:
  assumes ops: "operations c = pre @ p # post"
    and kind: "is_detector D p \<or> is_observable_include D p"
    and quiet: "\<not> produces_results p"
    and t: "t \<in> set (targets (jagged_data c) p)"
    and bad: "target_lookback D t = 0 \<or>
              length (qubit_measurements D (result_targets (jagged_data c) pre) (target_qubit D t))
                < target_lookback D t"
  shows "\<exists>e. list_detectors_and_observables D c = Inl e"
proof -
  define st0 :: resolver_state where
    "st0 = \<lparr>qubit_measure_indices = (\<lambda>_. []), m_count = 0, detectors = [], observables = []\<rparr>"
  define arena where "arena = jagged_data c"
  have split: "list_loop D arena st0 (operations c) =
      (case list_loop D arena st0 pre of Inl e \<Rightarrow> Inl e
       | Inr st1 \<Rightarrow> list_loop D arena st1 (p # post))"
    by (simp add: ops list_loop_append)
  have "\<exists>e. list_loop D arena st0 (operations c) = Inl e"
  proof (cases "list_loop D arena st0 pre")
    case (Inl e)
    with split show ?thesis by simp
  next
    case (Inr st1)
    from list_loop_state [OF Inr]
    have qmi: "qubit_measure_indices st1 =
        (\<lambda>q. qubit_measurements D (result_targets arena pre) q)"
      by (simp add: st0_def qubit_measurements_def)
    from bad have "target_lookback D t = 0 \<or>
        length (qubit_measure_indices st1 (target_qubit D t)) < target_lookback D t"
      by (simp add: qmi arena_def)
    with t obtain e where res: "resolve D (qubit_measure_indices st1) (targets arena p) = Inl e"
      using resolve_fails [of t "targets arena p" D "qubit_measure_indices st1"]
      by (auto simp: arena_def)
    from kind quiet res have "\<exists>e. list_loop D arena st1 (p # post) = Inl e"
      by (auto simp: is_detector_def is_observable_include_def produces_results_def Let_def)
    with split Inr show ?thesis by simp
  qed
  then show ?thesis
    by (auto simp: list_detectors_and_observables_def st0_def arena_def)
qed

theorem resolver_rejects_bad_lookback_witness:
  "from_text spec_decls ''DETECTOR 0@-1'' = Inr circuit_lone_detector \<and>
   (\<exists>e. list_detectors_and_observables spec_decls circuit_lone_detector = Inl e)"
proof -
  have ops: "operations circuit_lone_detector = [] @ detector_op # []"
    by (simp add: circuit_lone_detector_def)
  have kind: "is_detector spec_decls detector_op \<or> is_observable_include spec_decls detector_op"
    by (simp add: is_detector_def detector_op_def spec_ids)
  have quiet: "\<not> produces_results detector_op"
    by (simp add: produces_results_def detector_op_def has_flag_def)
  have t: "0x10000000 \<in> set (targets (jagged_data circuit_lone_detector) detector_op)"
    by (simp add: targets_def circuit_lone_detector_def detector_op_def)
  have bad: "target_lookback spec_decls 0x10000000 = 0 \<or>
      length (qubit_measurements spec_decls (result_targets (jagged_data circuit_lone_detector) [])
                (target_qubit spec_decls 0x10000000))
        < target_lookback spec_decls 0x10000000"
    by (simp add: target_lookback_def spec_decls_def result_targets_def qubit_measurements_def
        measurements_from_def)
  from resolver_rejects_bad_lookback [OF ops kind quiet t bad] parse_lone_detector
  show ?thesis by simp
qed
subsection \<open>What the pass returns on well-formed annotations\<close>


















subsection \<open>Reading a gate name\<close>

lemma name_char_not_special:
  "is_name_char c \<Longrightarrow> \<not> isspace c \<and> c \<noteq> CHR ''#'' \<and> c \<noteq> CHR ''}'' \<and> c \<noteq> CHR ''(''"
  by (auto simp: is_name_char_def isspace_def in_range_def)

lemma read_name_buf_exact:
  "list_all is_name_char name \<Longrightarrow> length buf + length name \<le> 32 \<Longrightarrow>
   s = [] \<or> \<not> is_name_char (hd s) \<Longrightarrow>
   read_name_buf buf (name @ s) = (buf @ name, s)"
proof (induction name arbitrary: buf)
  case Nil
  then show ?case by (cases s) auto
next
  case (Cons c cs)
  from Cons.prems have "read_name_buf (buf @ [c]) (cs @ s) = ((buf @ [c]) @ cs, s)"
    by (intro Cons.IH) auto
  with Cons.prems show ?case by simp
qed

lemma read_gate_name_exact:
  assumes "GATE_DATA_at D name = Some g" "list_all is_name_char name" "length name \<le> 32"
    and "s = [] \<or> \<not> is_name_char (hd s)"
  shows "read_gate_name D (name @ s) = Inr (g, s)"
  using assms read_name_buf_exact [of name "[]" s]
  by (simp add: read_gate_name_def)

lemma dead_space_stops:
  "s = [] \<or> (\<not> isspace (hd s) \<and> hd s \<noteq> CHR ''#'') \<Longrightarrow>
   read_past_dead_space_between_commands s = s"
  by (cases s) auto

lemma read_targets_into_unseparated:
  "s \<noteq> [] \<Longrightarrow> hd s \<noteq> CHR '' '' \<Longrightarrow> hd s \<noteq> CHR ''#'' \<Longrightarrow> hd s \<noteq> CHR 0x09 \<Longrightarrow>
   hd s \<noteq> CHR 0x0A \<Longrightarrow> hd s \<noteq> CHR ''{'' \<Longrightarrow>
   read_targets_into body circ s = Inl Targets_not_separated"
  by (simp add: read_targets_into_def read_until_next_line_arg_def)

lemma single_operation_unseparated:
  assumes "GATE_DATA_at D name = Some g" "\<not> has_flag g GATE_TAKES_PARENS_ARGUMENT"
    and "list_all is_name_char name" "length name \<le> 32"
  shows "circuit_read_single_operation D circ (name @ CHR ''('' # s) = Inl Targets_not_separated"
proof -
  have name: "read_gate_name D (name @ CHR ''('' # s) = Inr (g, CHR ''('' # s)"
    using assms by (intro read_gate_name_exact) (simp_all add: is_name_char_def in_range_def)
  have "read_targets_into body circ (CHR ''('' # s) = Inl Targets_not_separated" for body
    by (intro read_targets_into_unseparated) simp_all
  with name assms(2) show ?thesis
    by (simp add: circuit_read_single_operation_def read_targets_of_gate_def
        read_raw_qubit_targets_into_def read_record_targets_into_def
        read_classically_controllable_qubit_targets_into_def
        read_result_targets_into_def read_pauli_targets_into_def)
qed

lemma from_text_unseparated:
  assumes "GATE_DATA_at D name = Some g" "\<not> has_flag g GATE_TAKES_PARENS_ARGUMENT"
    and "list_all is_name_char name" "length name \<le> 32"
  shows "from_text D (name @ CHR ''('' # s) = Inl Targets_not_separated"
proof -
  let ?text = "name @ CHR ''('' # s"
  have first: "?text \<noteq> [] \<and> \<not> isspace (hd ?text) \<and> hd ?text \<noteq> CHR ''#'' \<and>
      hd ?text \<noteq> CHR ''}''"
    using assms(3) name_char_not_special [of "hd name"]
    by (cases name) (auto simp: isspace_def)
  then have dead: "read_past_dead_space_between_commands ?text = ?text"
    by (intro dead_space_stops) simp
  from single_operation_unseparated [OF assms, of empty_circuit s] first dead
  show ?thesis
    by (simp add: from_text_def append_from_text_def del: append.simps)
qed
subsection \<open>Parens arguments\<close>

text \<open>
  C7, as the spec states it: a gate without TAKES_PARENS_ARGUMENT followed by \<^verbatim>\<open>(0)\<close>
  parses, with argument 0. It does not: the parser reads a parens argument only for a gate
  that takes one, so for \<^verbatim>\<open>H(0) 0\<close> the target list starts at \<^verbatim>\<open>(\<close>, which is no separator.
\<close>

theorem parens_zero_counterexample:
  "from_text spec_decls ''H(0) 0'' = Inl Targets_not_separated"
  by code_simp

text \<open>
  C7, amended: for every gate without TAKES_PARENS_ARGUMENT, parsing the gate name followed
  by \<^verbatim>\<open>(0.5)\<close> fails and parsing it followed by \<^verbatim>\<open>(0)\<close> fails the same way (targets must
  be separated by spacing). Argument zero is legal on any gate in the builder:
  \<^verbatim>\<open>append_op\<close> with argument 0.5 on such a gate fails; with argument 0 it succeeds
  exactly when the target checks pass, and the operation it leaves last has argument 0.
\<close>

theorem parens_discipline:
  assumes "GATE_DATA_at D name = Some g" and "\<not> has_flag g GATE_TAKES_PARENS_ARGUMENT"
    and "list_all is_name_char name" and "length name \<le> 32"
  shows "from_text D (name @ ''(0.5)'' @ rest) = Inl Targets_not_separated \<and>
         from_text D (name @ ''(0)'' @ rest) = Inl Targets_not_separated \<and>
         fst (append_op D c name vec (1 / 2) allow_fusing) \<noteq> None \<and>
         (fst (append_op D c name vec 0 allow_fusing) = None \<longleftrightarrow>
            \<not> (has_flag g GATE_TARGETS_PAIRS \<and> (odd (length vec) \<or> interacts_with_itself vec)) \<and>
            \<not> list_ex (\<lambda>q. q \<noteq> (q AND valid_target_mask D g)) vec) \<and>
         (fst (append_op D c name vec 0 allow_fusing) = None \<longrightarrow>
            op_arg (last (operations (snd (append_op D c name vec 0 allow_fusing)))) = 0)"
proof -
  have half: "from_text D (name @ ''(0.5)'' @ rest) = Inl Targets_not_separated"
    using from_text_unseparated [OF assms, of "''0.5)'' @ rest"] by simp
  have zero: "from_text D (name @ ''(0)'' @ rest) = Inl Targets_not_separated"
    using from_text_unseparated [OF assms, of "''0)'' @ rest"] by simp
  have builder_half: "fst (append_op D c name vec (1 / 2) allow_fusing) \<noteq> None"
    using assms(1,2) by (simp add: append_op_def)
  have builder_zero: "fst (append_op D c name vec 0 allow_fusing) = None \<longleftrightarrow>
      \<not> (has_flag g GATE_TARGETS_PAIRS \<and> (odd (length vec) \<or> interacts_with_itself vec)) \<and>
      \<not> list_ex (\<lambda>q. q \<noteq> (q AND valid_target_mask D g)) vec"
    using assms(1) by (auto simp: append_op_def Let_def)
  have arg_zero: "fst (append_op D c name vec 0 allow_fusing) = None \<longrightarrow>
      op_arg (last (operations (snd (append_op D c name vec 0 allow_fusing)))) = 0"
    using assms(1)
    by (auto simp: append_op_def Let_def circuit_incremental_update_from_back_def
        split: if_splits)
  from half zero builder_half builder_zero arg_zero show ?thesis by blast
qed

theorem parens_discipline_witness:
  "GATE_DATA_at spec_decls ''H'' = Some \<lparr>gate_id = 1, gate_name = ''H'', gate_flags = {}\<rparr> \<and>
   from_text spec_decls ''H(0.5) 0'' = Inl Targets_not_separated \<and>
   from_text spec_decls ''H(0) 0'' = Inl Targets_not_separated \<and>
   fst (append_op spec_decls empty_circuit ''H'' [0] (1 / 2) True) \<noteq> None \<and>
   fst (append_op spec_decls empty_circuit ''H'' [0] 0 True) = None \<and>
   op_arg (last (operations (snd (append_op spec_decls empty_circuit ''H'' [0] 0 True)))) = 0"
proof -
  let ?g = "\<lparr>gate_id = 1, gate_name = ''H'', gate_flags = {}\<rparr>"
  have at: "GATE_DATA_at spec_decls ''H'' = Some ?g"
    by (simp add: spec_decls_def spec_at_simps)
  have plain: "\<not> has_flag ?g GATE_TAKES_PARENS_ARGUMENT"
    by (simp add: has_flag_def)
  have chars: "list_all is_name_char ''H''"
    by (simp add: is_name_char_def in_range_def)
  have short: "length ''H'' \<le> 32"
    by simp
  have mask: "valid_target_mask spec_decls ?g = 0xFFFFFF"
    by (simp add: valid_target_mask_def has_flag_def spec_decls_def)
  from parens_discipline [OF at plain chars short, of "'' 0''" empty_circuit "[0]" True] at mask
  show ?thesis by (simp add: has_flag_def)
qed
subsection \<open>Pair gates\<close>









subsection \<open>The readers consume a prefix of their input\<close>

lemma whitespace_suffix: "suffix (read_past_within_line_whitespace s) s"
  by (induction s) (auto intro: suffix_ConsI)

lemma end_of_line_suffix: "suffix (read_to_end_of_line s) s"
  by (induction s) (auto intro: suffix_ConsI)

lemma dead_space_suffix: "suffix (read_past_dead_space_between_commands s) s"
proof (induction s rule: read_past_dead_space_between_commands.induct)
  case 1
  show ?case by simp
next
  case (2 c rest)
  show ?case
  proof (cases "isspace c")
    case True
    with 2 show ?thesis by (auto intro: suffix_ConsI)
  next
    case False
    show ?thesis
    proof (cases "c = CHR ''#''")
      case True
      with False 2 have "suffix (read_past_dead_space_between_commands (c # rest))
          (read_to_end_of_line (c # rest))"
        by simp
      then show ?thesis
        using end_of_line_suffix [of "c # rest"] suffix_order.trans by blast
    next
      case False
      with \<open>\<not> isspace c\<close> show ?thesis by simp
    qed
  qed
qed

lemma read_name_buf_suffix: "read_name_buf buf s = (name, s1) \<Longrightarrow> suffix s1 s"
  by (induction s arbitrary: buf) (auto intro: suffix_ConsI split: if_splits)

lemma read_gate_name_suffix: "read_gate_name D s = Inr (g, s1) \<Longrightarrow> suffix s1 s"
  by (auto simp: read_gate_name_def dest: read_name_buf_suffix split: prod.splits option.splits)

lemma read_double_buf_suffix: "read_double_buf buf s = (b, s1) \<Longrightarrow> suffix s1 s"
  by (induction s arbitrary: buf) (auto intro: suffix_ConsI split: if_splits)

lemma read_parens_argument_suffix:
  assumes "read_parens_argument s = Inr (v, s1)"
  shows "suffix s1 s"
proof -
  from assms obtain s2 where
    num: "read_non_negative_double (read_past_within_line_whitespace (tl s)) = Inr (v, s2)"
    and out: "s1 = tl (read_past_within_line_whitespace s2)"
    by (auto simp: read_parens_argument_def Let_def split: if_splits sum.splits)
  from num have "suffix s2 (read_past_within_line_whitespace (tl s))"
    by (auto simp: read_non_negative_double_def dest: read_double_buf_suffix
        split: prod.splits option.splits if_splits)
  then have "suffix s2 s"
    using whitespace_suffix [of "tl s"] suffix_tl [of s] suffix_order.trans by blast
  moreover have "suffix s1 s2"
    unfolding out using whitespace_suffix [of s2] suffix_tl suffix_order.trans by blast
  ultimately show ?thesis
    using suffix_order.trans by blast
qed

lemma read_uint24_digits_suffix:
  "read_uint24_digits r s = Inr (q, s1) \<Longrightarrow> s \<noteq> [] \<Longrightarrow> suffix s1 s \<and> length s1 < length s"
proof (induction s arbitrary: r)
  case Nil
  then show ?case by simp
next
  case (Cons c rest)
  let ?r1 = "r * 10 + (of_char c - of_char CHR ''0'')"
  show ?case
  proof (cases "rest \<noteq> [] \<and> is_digit (hd rest)")
    case True
    with Cons.prems have "read_uint24_digits ?r1 rest = Inr (q, s1)"
      by (simp add: Let_def split: if_splits)
    from Cons.IH [OF this] True show ?thesis
      by (auto intro: suffix_ConsI)
  next
    case False
    with Cons.prems have "s1 = rest"
      by (auto simp: Let_def split: if_splits)
    then show ?thesis by (auto intro: suffix_ConsI)
  qed
qed

lemma read_uint24_t_suffix:
  "read_uint24_t s = Inr (q, s1) \<Longrightarrow> suffix s1 s \<and> length s1 < length s"
  by (auto simp: read_uint24_t_def dest: read_uint24_digits_suffix split: if_splits)

lemma next_line_arg_suffix: "read_until_next_line_arg s = Inr (b, s1) \<Longrightarrow> suffix s1 s"
proof -
  assume "read_until_next_line_arg s = Inr (b, s1)"
  then have "s1 = read_past_within_line_whitespace s \<or>
      s1 = read_to_end_of_line (tl (read_past_within_line_whitespace s))"
    by (auto simp: read_until_next_line_arg_def Let_def split: if_splits)
  then show ?thesis
    using whitespace_suffix [of s] end_of_line_suffix [of "tl (read_past_within_line_whitespace s)"]
      suffix_tl [of "read_past_within_line_whitespace s"] suffix_order.trans
    by metis
qed


lemma reads_raw_qubit_target: "reads_one_target (read_raw_qubit_target_into D)"
  by (auto simp: reads_one_target_def read_raw_qubit_target_into_def
      dest: read_uint24_t_suffix split: sum.splits)

lemma reads_uint24: "reads_one_target read_uint24_into"
  by (auto simp: reads_one_target_def read_uint24_into_def
      dest: read_uint24_t_suffix split: sum.splits)

lemma reads_result_target: "reads_one_target (read_result_target_into D)"
  unfolding reads_one_target_def
proof (intro allI impI)
  fix circ s circ1 s1
  assume run: "read_result_target_into D circ s = Inr (circ1, s1)"
  define flipped :: "32 word" where
    "flipped = (if s \<noteq> [] \<and> hd s = CHR ''!'' then push_bit 31 1 else 0)"
  define s0 where "s0 = (if flipped \<noteq> 0 then tl s else s)"
  from run obtain q where num: "read_uint24_t s0 = Inr (q, s1)"
    and out: "circ1 = circ\<lparr>num_qubits := max (num_qubits circ) (unat q + 1),
        jagged_data := jagged_data circ @ [q XOR flipped],
        num_measurements := num_measurements circ + 1\<rparr>"
    unfolding read_result_target_into_def Let_def flipped_def [symmetric] s0_def [symmetric]
    by (auto split: sum.splits)
  have "suffix s0 s" "length s0 \<le> length s"
    by (simp_all add: s0_def)
  with read_uint24_t_suffix [OF num] have "suffix s1 s" "length s1 < length s"
    using suffix_order.trans by auto
  with out show "suffix s1 s \<and> length s1 < length s \<and> operations circ1 = operations circ \<and>
      (\<exists>w. jagged_data circ1 = jagged_data circ @ [w])"
    by simp
qed

lemma reads_pauli_target: "reads_one_target (read_pauli_target_into D)"
proof -
  have "suffix s1 s \<and> length s1 < length s"
    if "read_uint24_t (tl s) = Inr (q, s1)" for s q s1
    using read_uint24_t_suffix [OF that] suffix_tl [of s] suffix_order.trans [of s1 "tl s" s]
    by (cases s) auto
  then show ?thesis
    unfolding reads_one_target_def read_pauli_target_into_def Let_def
    by (auto split: sum.splits if_splits)
qed

lemma reads_record_target: "reads_one_target (read_record_target_into D required)"
proof -
  have two: "suffix s2 s \<and> length s2 < length s"
    if "read_uint24_t s = Inr (q, s1)" "read_uint24_t (tl (tl s1)) = Inr (dt, s2)"
    for s q s1 dt s2
  proof -
    from read_uint24_t_suffix [OF that(1)] have a: "suffix s1 s" "length s1 < length s" by auto
    from read_uint24_t_suffix [OF that(2)]
    have b: "suffix s2 (tl (tl s1))" "length s2 < length (tl (tl s1))" by auto
    have "suffix (tl (tl s1)) s1"
      using suffix_tl [of s1] suffix_tl [of "tl s1"] suffix_order.trans by blast
    with a b have "suffix s2 s"
      using suffix_order.trans by blast
    moreover from a b have "length s2 < length s" by simp
    ultimately show ?thesis by simp
  qed
  show ?thesis
    unfolding reads_one_target_def read_record_target_into_def Let_def
    by (auto split: sum.splits if_splits dest: read_uint24_t_suffix two)
qed

lemma while_next_line_arg_result:
  assumes "reads_one_target body"
    and "while_next_line_arg n body circ s = Inr (circ1, s1)"
  shows "suffix s1 s \<and> operations circ1 = operations circ \<and>
         (\<exists>ws. jagged_data circ1 = jagged_data circ @ ws)"
  using assms(2)
proof (induction n arbitrary: circ s)
  case 0
  then show ?case by simp
next
  case (Suc n)
  from Suc.prems obtain has_next s2 where
    sep: "read_until_next_line_arg s = Inr (has_next, s2)"
    by (auto split: sum.splits)
  note s2 = next_line_arg_suffix [OF sep]
  show ?case
  proof (cases has_next)
    case False
    with Suc.prems sep have "circ1 = circ" "s1 = s2" by auto
    with s2 show ?thesis by simp
  next
    case True
    with Suc.prems sep obtain circ2 s3 where
      one: "body circ s2 = Inr (circ2, s3)" and
      rest: "while_next_line_arg n body circ2 s3 = Inr (circ1, s1)"
      by (auto split: sum.splits)
    from assms(1) one have b: "suffix s3 s2" "operations circ2 = operations circ"
      "\<exists>w. jagged_data circ2 = jagged_data circ @ [w]"
      unfolding reads_one_target_def by blast+
    from Suc.IH [OF rest] have r: "suffix s1 s3" "operations circ1 = operations circ2"
      "\<exists>ws. jagged_data circ1 = jagged_data circ2 @ ws" by blast+
    from b(1) r(1) s2 have "suffix s1 s"
      using suffix_order.trans by blast
    moreover from b(3) r(3) have "\<exists>ws. jagged_data circ1 = jagged_data circ @ ws"
      by auto
    ultimately show ?thesis using b(2) r(2) by simp
  qed
qed

lemma read_targets_of_gate_result:
  assumes "read_targets_of_gate D g circ s = Inr (circ1, s1)"
  shows "suffix s1 s \<and> operations circ1 = operations circ \<and>
         (\<exists>ws. jagged_data circ1 = jagged_data circ @ ws)"
proof -
  from assms obtain body where "reads_one_target body"
    "while_next_line_arg (Suc (length s)) body circ s = Inr (circ1, s1)"
    unfolding read_targets_of_gate_def read_raw_qubit_targets_into_def
      read_record_targets_into_def read_classically_controllable_qubit_targets_into_def
      read_result_targets_into_def read_pauli_targets_into_def read_targets_into_def
    using reads_raw_qubit_target reads_uint24 reads_result_target reads_pauli_target
      reads_record_target
    by (metis (full_types))
  then show ?thesis by (rule while_next_line_arg_result)
qed

lemma single_operation_result:
  assumes "circuit_read_single_operation D circ s = Inr (circ1, s1)"
  shows "suffix s1 s \<and>
         (\<exists>op ws. operations circ1 = operations circ @ [op] \<and>
                   jagged_data circ1 = jagged_data circ @ ws \<and>
                   op_offset op = length (jagged_data circ) \<and> op_length op = length ws)"
proof -
  from assms obtain g s2 where name: "read_gate_name D s = Inr (g, s2)"
    by (auto simp: circuit_read_single_operation_def split: sum.splits)
  from assms name obtain val s3 where
    parens: "(if has_flag g GATE_TAKES_PARENS_ARGUMENT
              then read_parens_argument (read_past_within_line_whitespace s2)
              else Inr (0, s2)) = Inr (val, s3)"
    by (auto simp: circuit_read_single_operation_def split: sum.splits)
  from assms name parens obtain mid where
    tgt: "read_targets_of_gate D g circ s3 = Inr (mid, s1)" and
    out: "circ1 = mid\<lparr>operations := operations mid @
            [\<lparr>op_gate = g, op_arg = val, op_offset = length (jagged_data circ),
              op_length = length (jagged_data mid) - length (jagged_data circ)\<rparr>]\<rparr>"
    by (auto simp: circuit_read_single_operation_def Let_def split: sum.splits if_splits)
  have "suffix s3 s2"
  proof (cases "has_flag g GATE_TAKES_PARENS_ARGUMENT")
    case True
    with parens have "suffix s3 (read_past_within_line_whitespace s2)"
      by (simp add: read_parens_argument_suffix)
    then show ?thesis
      using whitespace_suffix [of s2] suffix_order.trans by blast
  next
    case False
    with parens show ?thesis by simp
  qed
  moreover note read_gate_name_suffix [OF name]
  moreover from read_targets_of_gate_result [OF tgt]
  have t: "suffix s1 s3" "operations mid = operations circ"
    "\<exists>ws. jagged_data mid = jagged_data circ @ ws" by blast+
  ultimately have "suffix s1 s"
    using suffix_order.trans by blast
  moreover from t(3) obtain ws where ws: "jagged_data mid = jagged_data circ @ ws" by blast
  have "operations circ1 = operations circ @
      [\<lparr>op_gate = g, op_arg = val, op_offset = length (jagged_data circ),
        op_length = length ws\<rparr>] \<and> jagged_data circ1 = jagged_data circ @ ws"
    by (simp add: out t(2) ws)
  then have "\<exists>op ws. operations circ1 = operations circ @ [op] \<and>
      jagged_data circ1 = jagged_data circ @ ws \<and>
      op_offset op = length (jagged_data circ) \<and> op_length op = length ws"
    by (intro exI [of _ "\<lparr>op_gate = g, op_arg = val, op_offset = length (jagged_data circ),
        op_length = length ws\<rparr>"] exI [of _ ws]) simp
  ultimately show ?thesis by simp
qed
subsection \<open>One iteration of \<^verbatim>\<open>circuit_read_operations\<close>\<close>

lemma read_operations_unfold:
  "circuit_read_operations (Suc n) D cf circ input cond =
     (let s0 = read_past_dead_space_between_commands input in
      if s0 = [] then
        (if cond = READ_UNTIL_END_OF_BLOCK then Inl Unterminated_block else Inr (circ, []))
      else if hd s0 = CHR ''}'' then
        (if cond \<noteq> READ_UNTIL_END_OF_BLOCK then Inl Uninitiated_block else Inr (circ, tl s0))
      else
        case circuit_read_single_operation D circ s0 of
          Inl e \<Rightarrow> Inl e
        | Inr (circ1, s1) \<Rightarrow>
            if gate_id (op_gate (operations circ1 ! length (operations circ))) =
               gate_name_to_id D ''REPEAT''
            then
              (if op_length (operations circ1 ! length (operations circ)) \<noteq> 1
               then Inl Invalid_repeat_instruction
               else if unat (last (jagged_data circ1)) = 0 then Inl Repeating_zero_times
               else
                 case circuit_read_operations n D False (repeat_popped circ1) (tl s1)
                        READ_UNTIL_END_OF_BLOCK of
                   Inl e \<Rightarrow> Inl e
                 | Inr (circ3, input1) \<Rightarrow>
                     continue_reading n D False
                       (repeat_expanded (unat (last (jagged_data circ1)))
                          (length (operations (repeat_popped circ1)))
                          (num_measurements (repeat_popped circ1)) circ3)
                       input1 cond)
            else if cf \<and> can_fuse (operations circ1 ! (length (operations circ) - 1))
                             (operations circ1 ! length (operations circ))
            then continue_reading n D cf (fused_back (length (operations circ)) circ1) (tl s1) cond
            else continue_reading n D True circ1 (tl s1) cond)"
  by (simp add: Let_def repeat_popped_def repeat_expanded_def fused_back_def
      continue_reading_def split: sum.splits prod.splits)

declare circuit_read_operations.simps(2) [simp del]

lemma read_operations_cases [consumes 1, case_names eof close repeat fuse push]:
  assumes run: "circuit_read_operations (Suc n) D cf circ input cond = Inr (circ', rest)"
  obtains
    (eof) "read_past_dead_space_between_commands input = []"
      "cond \<noteq> READ_UNTIL_END_OF_BLOCK" "circ' = circ" "rest = []"
  | (close) "read_past_dead_space_between_commands input \<noteq> []"
      "hd (read_past_dead_space_between_commands input) = CHR ''}''"
      "cond = READ_UNTIL_END_OF_BLOCK" "circ' = circ"
      "rest = tl (read_past_dead_space_between_commands input)"
  | (repeat) circ1 s1 circ3 input1 where
      "read_past_dead_space_between_commands input \<noteq> []"
      "hd (read_past_dead_space_between_commands input) \<noteq> CHR ''}''"
      "circuit_read_single_operation D circ (read_past_dead_space_between_commands input) =
         Inr (circ1, s1)"
      "gate_id (op_gate (operations circ1 ! length (operations circ))) =
         gate_name_to_id D ''REPEAT''"
      "op_length (operations circ1 ! length (operations circ)) = 1"
      "unat (last (jagged_data circ1)) \<noteq> 0"
      "circuit_read_operations n D False (repeat_popped circ1) (tl s1) READ_UNTIL_END_OF_BLOCK =
         Inr (circ3, input1)"
      "continue_reading n D False
         (repeat_expanded (unat (last (jagged_data circ1)))
            (length (operations (repeat_popped circ1)))
            (num_measurements (repeat_popped circ1)) circ3)
         input1 cond = Inr (circ', rest)"
  | (fuse) circ1 s1 where
      "read_past_dead_space_between_commands input \<noteq> []"
      "hd (read_past_dead_space_between_commands input) \<noteq> CHR ''}''"
      "circuit_read_single_operation D circ (read_past_dead_space_between_commands input) =
         Inr (circ1, s1)"
      "gate_id (op_gate (operations circ1 ! length (operations circ))) \<noteq>
         gate_name_to_id D ''REPEAT''"
      "cf"
      "can_fuse (operations circ1 ! (length (operations circ) - 1))
         (operations circ1 ! length (operations circ))"
      "continue_reading n D cf (fused_back (length (operations circ)) circ1) (tl s1) cond =
         Inr (circ', rest)"
  | (push) circ1 s1 where
      "read_past_dead_space_between_commands input \<noteq> []"
      "hd (read_past_dead_space_between_commands input) \<noteq> CHR ''}''"
      "circuit_read_single_operation D circ (read_past_dead_space_between_commands input) =
         Inr (circ1, s1)"
      "gate_id (op_gate (operations circ1 ! length (operations circ))) \<noteq>
         gate_name_to_id D ''REPEAT''"
      "\<not> (cf \<and> can_fuse (operations circ1 ! (length (operations circ) - 1))
                   (operations circ1 ! length (operations circ)))"
      "continue_reading n D True circ1 (tl s1) cond = Inr (circ', rest)"
proof -
  let ?s0 = "read_past_dead_space_between_commands input"
  show thesis
  proof (cases "?s0 = []")
    case True
    with run eof show ?thesis
      by (simp add: read_operations_unfold split: if_splits)
  next
    case False
    note nonempty = False
    show ?thesis
    proof (cases "hd ?s0 = CHR ''}''")
      case True
      with run nonempty close show ?thesis
        by (simp add: read_operations_unfold split: if_splits)
    next
      case False
      note open_op = False
      from run nonempty open_op obtain circ1 s1 where
        one: "circuit_read_single_operation D circ ?s0 = Inr (circ1, s1)"
        by (auto simp: read_operations_unfold split: sum.splits)
      let ?op = "operations circ1 ! length (operations circ)"
      show ?thesis
      proof (cases "gate_id (op_gate ?op) = gate_name_to_id D ''REPEAT''")
        case True
        with run nonempty open_op one have
          len: "op_length ?op = 1" and count: "unat (last (jagged_data circ1)) \<noteq> 0"
          by (auto simp: read_operations_unfold split: if_splits)
        with run nonempty open_op one True obtain circ3 input1 where
          "circuit_read_operations n D False (repeat_popped circ1) (tl s1)
             READ_UNTIL_END_OF_BLOCK = Inr (circ3, input1)"
          "continue_reading n D False
             (repeat_expanded (unat (last (jagged_data circ1)))
                (length (operations (repeat_popped circ1)))
                (num_measurements (repeat_popped circ1)) circ3)
             input1 cond = Inr (circ', rest)"
          by (auto simp: read_operations_unfold split: sum.splits)
        with nonempty open_op one True len count show ?thesis
          by (rule repeat)
      next
        case False
        note no_repeat = False
        show ?thesis
        proof (cases "cf \<and> can_fuse (operations circ1 ! (length (operations circ) - 1)) ?op")
          case True
          with run nonempty open_op one no_repeat have
            "continue_reading n D cf (fused_back (length (operations circ)) circ1) (tl s1) cond =
               Inr (circ', rest)"
            by (simp add: read_operations_unfold)
          with nonempty open_op one no_repeat True show ?thesis
            by (intro fuse) simp_all
        next
          case False
          with run nonempty open_op one no_repeat have
            "continue_reading n D True circ1 (tl s1) cond = Inr (circ', rest)"
            by (auto simp: read_operations_unfold split: if_splits)
          with nonempty open_op one no_repeat False show ?thesis
            by (intro push) simp_all
        qed
      qed
    qed
  qed
qed
subsection \<open>Adjacent fusable operations\<close>

lemma no_adjacent_fusable_nth:
  "no_adjacent_fusable xs \<longleftrightarrow> (\<forall>i. Suc i < length xs \<longrightarrow> \<not> can_fuse (xs ! i) (xs ! Suc i))"
proof (induction xs rule: no_adjacent_fusable.induct)
  case (1 a b rest)
  have "(\<forall>i. Suc i < length (a # b # rest) \<longrightarrow>
            \<not> can_fuse ((a # b # rest) ! i) ((a # b # rest) ! Suc i)) \<longleftrightarrow>
        \<not> can_fuse a b \<and>
        (\<forall>j. Suc j < length (b # rest) \<longrightarrow> \<not> can_fuse ((b # rest) ! j) ((b # rest) ! Suc j))"
    (is "(\<forall>i. ?P i) \<longleftrightarrow> _ \<and> (\<forall>j. ?Q j)")
  proof -
    have "(\<forall>i. ?P i) \<longleftrightarrow> ?P 0 \<and> (\<forall>j. ?P (Suc j))"
      by (metis nat.exhaust)
    then show ?thesis by simp
  qed
  with 1 show ?case by simp
qed simp_all

lemma can_fuse_same_key:
  "op_gate b = op_gate b' \<Longrightarrow> op_arg b = op_arg b' \<Longrightarrow> can_fuse a b = can_fuse a b'"
  "op_gate a = op_gate a' \<Longrightarrow> op_arg a = op_arg a' \<Longrightarrow> can_fuse a b = can_fuse a' b"
  by (simp_all add: can_fuse_def)

lemma no_adjacent_fusable_snoc:
  "no_adjacent_fusable (xs @ [x]) \<longleftrightarrow>
     no_adjacent_fusable xs \<and> (xs = [] \<or> \<not> can_fuse (last xs) x)"
proof (induction xs rule: no_adjacent_fusable.induct)
  case (1 a b rest)
  then show ?case by simp
qed simp_all

lemma no_adjacent_fusable_relast:
  assumes "xs \<noteq> []" "op_gate y = op_gate (last xs)" "op_arg y = op_arg (last xs)"
  shows "no_adjacent_fusable (butlast xs @ [y]) = no_adjacent_fusable xs"
proof -
  from assms(1) have "no_adjacent_fusable xs = no_adjacent_fusable (butlast xs @ [last xs])"
    by simp
  also have "\<dots> = no_adjacent_fusable (butlast xs @ [y])"
    unfolding no_adjacent_fusable_snoc
    using can_fuse_same_key(1) [OF assms(2,3)] by simp
  finally show ?thesis by simp
qed

lemma butlast_update_snoc:
  "xs \<noteq> [] \<Longrightarrow> butlast ((xs @ [x])[length xs - Suc 0 := y]) = butlast xs @ [y]"
  by (cases xs rule: rev_cases) (simp_all add: list_update_append butlast_append)

lemma block_needs_brace:
  "circuit_read_operations n D cf circ input READ_UNTIL_END_OF_BLOCK = Inr (circ', rest) \<Longrightarrow>
   CHR ''}'' \<in> set input"
proof (induction n arbitrary: cf circ input circ' rest)
  case 0
  then show ?case by simp
next
  case (Suc n)
  let ?s0 = "read_past_dead_space_between_commands input"
  have up: "set ?s0 \<subseteq> set input"
    using dead_space_suffix [of input] by (rule set_mono_suffix)
  have later: "CHR ''}'' \<in> set input"
    if one: "circuit_read_single_operation D circ ?s0 = Inr (circ1, s1)"
      and brace: "CHR ''}'' \<in> set (tl s1)" for circ1 s1
  proof -
    from single_operation_result [OF one] have "suffix s1 ?s0" by simp
    then have "set (tl s1) \<subseteq> set ?s0"
      using suffix_tl [of s1] suffix_order.trans set_mono_suffix by blast
    with brace up show ?thesis by blast
  qed
  from Suc.prems show ?case
  proof (cases rule: read_operations_cases)
    case eof
    then show ?thesis by simp
  next
    case close
    then have "CHR ''}'' \<in> set ?s0"
      by (cases ?s0) auto
    with up show ?thesis by blast
  next
    case (repeat circ1 s1 circ3 input1)
    from Suc.IH [OF repeat(7)] have "CHR ''}'' \<in> set (tl s1)" .
    with repeat(3) show ?thesis by (rule later)
  next
    case (fuse circ1 s1)
    from fuse(7) have "CHR ''}'' \<in> set (tl s1)"
      by (auto simp: continue_reading_def dest: Suc.IH)
    with fuse(3) show ?thesis by (rule later)
  next
    case (push circ1 s1)
    from push(6) have "CHR ''}'' \<in> set (tl s1)"
      by (auto simp: continue_reading_def dest: Suc.IH)
    with push(3) show ?thesis by (rule later)
  qed
qed

lemma read_operations_fusion:
  assumes "circuit_read_operations n D cf circ input cond = Inr (circ', rest)"
    and "CHR ''}'' \<notin> set input" and "cond \<noteq> READ_UNTIL_END_OF_BLOCK"
    and "no_adjacent_fusable (operations circ)" and "cf \<longleftrightarrow> operations circ \<noteq> []"
  shows "no_adjacent_fusable (operations circ')"
  using assms
proof (induction n arbitrary: cf circ input)
  case 0
  then show ?case by simp
next
  case (Suc n)
  let ?s0 = "read_past_dead_space_between_commands input"
  note clean = Suc.prems(2) and mode = Suc.prems(3) and inv = Suc.prems(4) and flag = Suc.prems(5)
  have up: "set ?s0 \<subseteq> set input"
    using dead_space_suffix [of input] by (rule set_mono_suffix)
  have onward: "no_adjacent_fusable (operations circ')"
    if one: "circuit_read_single_operation D circ ?s0 = Inr (circ1, s1)"
      and go: "continue_reading n D True next_circ (tl s1) cond = Inr (circ', rest)"
      and ok: "no_adjacent_fusable (operations next_circ)" "operations next_circ \<noteq> []"
    for circ1 s1 next_circ
  proof (cases "cond = READ_AS_LITTLE_AS_POSSIBLE")
    case True
    with go ok show ?thesis by (simp add: continue_reading_def)
  next
    case False
    with go have run: "circuit_read_operations n D True next_circ (tl s1) cond = Inr (circ', rest)"
      by (simp add: continue_reading_def)
    from single_operation_result [OF one] have "suffix s1 ?s0" by simp
    then have "set (tl s1) \<subseteq> set ?s0"
      using suffix_tl [of s1] suffix_order.trans set_mono_suffix by blast
    with clean up have "CHR ''}'' \<notin> set (tl s1)" by blast
    from Suc.IH [OF run this mode ok(1)] ok(2) show ?thesis by simp
  qed
  from Suc.prems(1) show ?case
  proof (cases rule: read_operations_cases)
    case eof
    with inv show ?thesis by simp
  next
    case close
    with mode show ?thesis by simp
  next
    case (repeat circ1 s1 circ3 input1)
    from block_needs_brace [OF repeat(7)] have "CHR ''}'' \<in> set (tl s1)" .
    moreover from single_operation_result [OF repeat(3)] have "suffix s1 ?s0" by simp
    then have "set (tl s1) \<subseteq> set ?s0"
      using suffix_tl [of s1] suffix_order.trans set_mono_suffix by blast
    ultimately show ?thesis using clean up by blast
  next
    case (fuse circ1 s1)
    from single_operation_result [OF fuse(3)] obtain op where
      ops: "operations circ1 = operations circ @ [op]" by blast
    from fuse(5) flag have nonempty: "operations circ \<noteq> []" by simp
    let ?i = "length (operations circ) - 1"
    let ?fused = "(operations circ1 ! ?i)
        \<lparr>op_length := op_length (operations circ1 ! ?i) +
                      op_length (operations circ1 ! length (operations circ))\<rparr>"
    from nonempty have last: "operations circ1 ! ?i = last (operations circ)"
      by (simp add: ops nth_append last_conv_nth)
    from nonempty have "operations (fused_back (length (operations circ)) circ1) =
        butlast (operations circ) @ [?fused]"
      by (simp add: fused_back_def ops butlast_update_snoc)
    moreover have "no_adjacent_fusable (butlast (operations circ) @ [?fused]) =
        no_adjacent_fusable (operations circ)"
      using nonempty last by (intro no_adjacent_fusable_relast) simp_all
    ultimately have "no_adjacent_fusable (operations (fused_back (length (operations circ)) circ1))"
      "operations (fused_back (length (operations circ)) circ1) \<noteq> []"
      using inv by simp_all
    with fuse(3,5,7) show ?thesis by (intro onward) simp_all
  next
    case (push circ1 s1)
    from single_operation_result [OF push(3)] obtain op where
      ops: "operations circ1 = operations circ @ [op]" by blast
    have "operations circ = [] \<or> \<not> can_fuse (last (operations circ)) op"
    proof (cases "operations circ = []")
      case False
      with flag push(5) have "\<not> can_fuse (operations circ1 ! (length (operations circ) - 1))
          (operations circ1 ! length (operations circ))" by simp
      with False show ?thesis
        by (simp add: ops nth_append last_conv_nth)
    qed simp
    with inv have "no_adjacent_fusable (operations circ1)" "operations circ1 \<noteq> []"
      by (simp_all add: ops no_adjacent_fusable_snoc)
    with push(3,6) show ?thesis by (intro onward)
  qed
qed
lemma incremental_update_operations:
  "operations (circuit_incremental_update_from_back D c) = operations c"
  by (simp add: circuit_incremental_update_from_back_def Let_def)

lemma append_op_fusion:
  assumes ids: "ids_name_gates D"
    and run: "append_op D c name vec arg True = (None, c1)"
    and inv: "no_adjacent_fusable (operations c)" "gates_from_table D (operations c)"
  shows "no_adjacent_fusable (operations c1) \<and> gates_from_table D (operations c1)"
proof -
  from run obtain g where at: "GATE_DATA_at D name = Some g"
    by (auto simp: append_op_def split: option.splits)
  let ?last_op = "last (operations c)"
  let ?merge = "\<not> has_flag g GATE_IS_NOT_FUSABLE \<and> operations c \<noteq> [] \<and>
      gate_id (op_gate ?last_op) = gate_id g \<and> op_arg ?last_op = arg"
  show ?thesis
  proof (cases ?merge)
    case True
    with run at have ops: "operations c1 =
        butlast (operations c) @ [?last_op\<lparr>op_length := op_length ?last_op + length vec\<rparr>]"
      by (auto simp: append_op_def Let_def incremental_update_operations split: if_splits)
    from True have "no_adjacent_fusable
        (butlast (operations c) @ [?last_op\<lparr>op_length := op_length ?last_op + length vec\<rparr>]) =
        no_adjacent_fusable (operations c)"
      by (intro no_adjacent_fusable_relast) simp_all
    moreover from True inv(2) have "gates_from_table D
        (butlast (operations c) @ [?last_op\<lparr>op_length := op_length ?last_op + length vec\<rparr>])"
      by (cases "operations c" rule: rev_cases) (auto simp: gates_from_table_def)
    ultimately show ?thesis using inv(1) ops by simp
  next
    case False
    let ?new = "\<lparr>op_gate = g, op_arg = arg, op_offset = length (jagged_data c),
        op_length = length vec\<rparr>"
    from False run at have ops: "operations c1 = operations c @ [?new]"
      by (auto simp: append_op_def Let_def incremental_update_operations split: if_splits)
    have "operations c = [] \<or> \<not> can_fuse ?last_op ?new"
    proof (cases "operations c = []")
      case True
      then show ?thesis by simp
    next
      case nonempty: False
      show ?thesis
      proof (cases "gate_id (op_gate ?last_op) = gate_id g")
        case True
        from nonempty inv(2) obtain n where "GATE_DATA_at D n = Some (op_gate ?last_op)"
          by (cases "operations c" rule: rev_cases) (auto simp: gates_from_table_def)
        with at True ids have "op_gate ?last_op = g"
          unfolding ids_name_gates_def by blast
        with False nonempty True show ?thesis
          by (auto simp: can_fuse_def)
      next
        case False
        then show ?thesis by (simp add: can_fuse_def)
      qed
    qed
    moreover from at inv(2) have "gates_from_table D (operations c @ [?new])"
      by (auto simp: gates_from_table_def)
    ultimately show ?thesis
      using inv(1) ops by (simp add: no_adjacent_fusable_snoc)
  qed
qed

lemma append_ops_fusion:
  assumes "ids_name_gates D"
    and "append_ops D c calls = (None, c1)"
    and "no_adjacent_fusable (operations c)" "gates_from_table D (operations c)"
  shows "no_adjacent_fusable (operations c1)"
  using assms(2-)
proof (induction calls arbitrary: c)
  case Nil
  then show ?case by simp
next
  case (Cons call calls)
  obtain name vec arg where call: "call = (name, vec, arg)"
    by (cases call) auto
  from Cons.prems(1) obtain c2 where
    one: "append_op D c name vec arg True = (None, c2)" and
    rest: "append_ops D c2 calls = (None, c1)"
    by (auto simp: call split: prod.splits option.splits)
  from append_op_fusion [OF assms(1) one Cons.prems(2,3)] Cons.IH [OF rest]
  show ?case by simp
qed

lemma spec_ids_name_gates: "ids_name_gates spec_decls"
proof -
  have mem: "g \<in> set spec_gates" if "spec_at n = Some g" for n g
    using that by (auto simp: spec_at_def find_Some_iff)
  have "g1 = g2" if "g1 \<in> set spec_gates" "g2 \<in> set spec_gates" "gate_id g1 = gate_id g2"
    for g1 g2
    using that by (auto simp: spec_gates_def)
  with mem show ?thesis
    unfolding ids_name_gates_def spec_decls_def by auto
qed

lemma parse_repeat_twice: "from_text spec_decls repeat_twice_text = Inr circuit_H0_H0"
  by code_simp

lemma parse_fusion_scenario: "from_text spec_decls fusion_scenario_text = Inr fusion_scenario"
  by code_simp

text \<open>
  C4, as the spec states it: no circuit reachable by parses and append calls has two
  adjacent fusable operations. The copies that REPEAT expansion makes are not merged with
  their neighbours: \<^verbatim>\<open>REPEAT 2 { H 0 }\<close> parses to two adjacent \<^verbatim>\<open>H 0\<close> operations.
\<close>

theorem repeat_leaves_fusable_pair_counterexample:
  "from_text spec_decls repeat_twice_text = Inr circuit_H0_H0 \<and>
   can_fuse (operations circuit_H0_H0 ! 0) (operations circuit_H0_H0 ! 1) \<and>
   \<not> no_adjacent_fusable (operations circuit_H0_H0)"
  using parse_repeat_twice
  by (simp add: circuit_H0_H0_def can_fuse_def has_flag_def)

text \<open>
  C4, amended: in a circuit that \<^verbatim>\<open>from_text\<close> builds from a text without a closing brace
  (so without a REPEAT block), and in a circuit built from the empty circuit by
  \<^verbatim>\<open>append_op\<close> calls with \<^verbatim>\<open>allow_fusing\<close> set, no two adjacent operations are fusable:
  there the parser and the builder merge every such pair. The copies of a REPEAT body, the
  first operation of a block or of a later parse, \<^verbatim>\<open>append_op\<close> without \<^verbatim>\<open>allow_fusing\<close>,
  \<^verbatim>\<open>append_operation\<close> and \<^verbatim>\<open>append_circuit\<close> are appended without merging.
\<close>

theorem fusion_invariant:
  "(from_text D text = Inr c \<and> CHR ''}'' \<notin> set text \<longrightarrow>
      no_adjacent_fusable (operations c)) \<and>
   (ids_name_gates D \<and> append_ops D empty_circuit calls = (None, c1) \<longrightarrow>
      no_adjacent_fusable (operations c1))"
proof (intro conjI impI)
  assume "from_text D text = Inr c \<and> CHR ''}'' \<notin> set text"
  then obtain rest where
    run: "circuit_read_operations (Suc (length text)) D False empty_circuit text
            READ_UNTIL_END_OF_FILE = Inr (c, rest)"
    and clean: "CHR ''}'' \<notin> set text"
    by (auto simp: from_text_def append_from_text_def Let_def split: sum.splits)
  from run clean show "no_adjacent_fusable (operations c)"
    by (rule read_operations_fusion) (simp_all add: empty_circuit_def)
next
  assume "ids_name_gates D \<and> append_ops D empty_circuit calls = (None, c1)"
  then show "no_adjacent_fusable (operations c1)"
    by (auto intro: append_ops_fusion simp: empty_circuit_def gates_from_table_def)
qed

theorem fusion_invariant_witness:
  "from_text spec_decls fusion_scenario_text = Inr fusion_scenario \<and>
   CHR ''}'' \<notin> set fusion_scenario_text \<and>
   ids_name_gates spec_decls \<and>
   append_ops spec_decls empty_circuit [(''X'', [0], 0), (''X'', [1], 0), (''Y'', [2], 0)] =
     (None, fusion_scenario) \<and>
   no_adjacent_fusable (operations fusion_scenario) \<and>
   length (operations fusion_scenario) = 2"
proof -
  have clean: "CHR ''}'' \<notin> set fusion_scenario_text"
    by (simp add: fusion_scenario_text_def)
  have built: "append_ops spec_decls empty_circuit
      [(''X'', [0], 0), (''X'', [1], 0), (''Y'', [2], 0)] = (None, fusion_scenario)"
    by code_simp
  from fusion_invariant [of spec_decls fusion_scenario_text fusion_scenario
      "[(''X'', [0], 0), (''X'', [1], 0), (''Y'', [2], 0)]" fusion_scenario]
    parse_fusion_scenario clean built spec_ids_name_gates
  show ?thesis by (simp add: fusion_scenario_def)
qed
subsection \<open>Reading a decimal number\<close>

declare show_nat.simps [simp del]


lemma digit_value_bound: "is_digit c \<Longrightarrow> digit_value c < 10"
  by (auto simp: is_digit_def in_range_def digit_value_def)





subsection \<open>More fuel changes nothing\<close>


subsection \<open>No REPEAT operation stays in the list\<close>



subsection \<open>The line \<^verbatim>\<open>REPEAT k {\<close>\<close>



subsection \<open>REPEAT expansion\<close>






subsection \<open>The fuel passed by \<^verbatim>\<open>append_from_text\<close> is never used up\<close>

lemma read_operations_suffix:
  "circuit_read_operations n D cf circ input cond = Inr (circ', rest) \<Longrightarrow> suffix rest input"
proof (induction n arbitrary: cf circ input cond circ' rest)
  case 0
  then show ?case by simp
next
  case (Suc n)
  let ?s0 = "read_past_dead_space_between_commands input"
  note s0 = dead_space_suffix [of input]
  have onward: "suffix rest input"
    if "continue_reading n D cf' c' i' cond = Inr (circ', rest)" "suffix i' input" for cf' c' i'
  proof (cases "cond = READ_AS_LITTLE_AS_POSSIBLE")
    case True
    with that show ?thesis by (simp add: continue_reading_def)
  next
    case False
    with that(1) have "suffix rest i'"
      by (auto simp: continue_reading_def dest: Suc.IH)
    with that(2) show ?thesis using suffix_order.trans by blast
  qed
  have after: "suffix (tl s1) input"
    if "circuit_read_single_operation D circ ?s0 = Inr (circ1, s1)" for circ1 s1
    using single_operation_result [OF that] s0 suffix_tl [of s1] suffix_order.trans by blast
  from Suc.prems show ?case
  proof (cases rule: read_operations_cases)
    case eof
    then show ?thesis by simp
  next
    case close
    from suffix_order.trans [OF suffix_tl s0] close(5) show ?thesis by simp
  next
    case (repeat circ1 s1 circ3 input1)
    from Suc.IH [OF repeat(7)] after [OF repeat(3)] have "suffix input1 input"
      using suffix_order.trans by blast
    with repeat(8) show ?thesis by (rule onward)
  next
    case (fuse circ1 s1)
    from fuse(7) after [OF fuse(3)] show ?thesis by (rule onward)
  next
    case (push circ1 s1)
    from push(6) after [OF push(3)] show ?thesis by (rule onward)
  qed
qed

lemma while_next_line_arg_fuel:
  assumes "reads_one_target body" and "\<And>c t. body c t \<noteq> Inl Out_of_fuel"
  shows "length s < n \<Longrightarrow> while_next_line_arg n body circ s \<noteq> Inl Out_of_fuel"
proof (induction n arbitrary: circ s)
  case 0
  then show ?case by simp
next
  case (Suc n)
  show ?case
  proof (cases "read_until_next_line_arg s")
    case (Inl e)
    then have "e = Targets_not_separated"
      by (auto simp: read_until_next_line_arg_def Let_def split: if_splits)
    with Inl show ?thesis by simp
  next
    case (Inr r)
    obtain has_next s1 where r: "r = (has_next, s1)" by (cases r) auto
    from next_line_arg_suffix [OF Inr [unfolded r]] have s1: "length s1 \<le> length s"
      by (rule suffix_length_le)
    show ?thesis
    proof (cases has_next)
      case False
      with Inr r show ?thesis by simp
    next
      case True
      show ?thesis
      proof (cases "body circ s1")
        case (Inl e)
        with assms(2) [of circ s1] Inr r True show ?thesis by auto
      next
        case (Inr r2)
        obtain circ2 s2 where r2: "r2 = (circ2, s2)" by (cases r2) auto
        from assms(1) Inr r2 have "length s2 < length s1"
          unfolding reads_one_target_def by blast
        with s1 Suc.prems have "length s2 < n" by simp
        from Suc.IH [OF this] \<open>read_until_next_line_arg s = Inr r\<close> r True Inr r2
        show ?thesis by simp
      qed
    qed
  qed
qed

lemma read_targets_of_gate_fuel: "read_targets_of_gate D g circ s \<noteq> Inl Out_of_fuel"
proof -
  have reads: "read_targets_into body circ s \<noteq> Inl Out_of_fuel"
    if "reads_one_target body" "\<And>c t. body c t \<noteq> Inl Out_of_fuel" for body
    unfolding read_targets_into_def using that by (intro while_next_line_arg_fuel) simp_all
  have num: "read_uint24_t t \<noteq> Inl Out_of_fuel" for t
  proof -
    have "read_uint24_digits r t \<noteq> Inl Out_of_fuel" for r
      by (induction t arbitrary: r) (auto simp: Let_def)
    then show ?thesis by (simp add: read_uint24_t_def)
  qed
  have "read_raw_qubit_target_into D c t \<noteq> Inl Out_of_fuel"
    "read_record_target_into D required c t \<noteq> Inl Out_of_fuel"
    "read_result_target_into D c t \<noteq> Inl Out_of_fuel"
    "read_pauli_target_into D c t \<noteq> Inl Out_of_fuel"
    "read_uint24_into c t \<noteq> Inl Out_of_fuel" for c t required
    using num
    by (auto simp: read_raw_qubit_target_into_def read_record_target_into_def
        read_result_target_into_def read_pauli_target_into_def read_uint24_into_def Let_def
        split: sum.splits if_splits)
  then show ?thesis
    unfolding read_targets_of_gate_def read_raw_qubit_targets_into_def
      read_record_targets_into_def read_classically_controllable_qubit_targets_into_def
      read_result_targets_into_def read_pauli_targets_into_def
    using reads reads_raw_qubit_target reads_uint24 reads_result_target reads_pauli_target
      reads_record_target
    by presburger
qed

lemma single_operation_fuel: "circuit_read_single_operation D circ s \<noteq> Inl Out_of_fuel"
proof -
  have name: "read_gate_name D t \<noteq> Inl Out_of_fuel" for t
    by (auto simp: read_gate_name_def split: prod.splits option.splits)
  have parens: "read_parens_argument t \<noteq> Inl Out_of_fuel" for t
    by (auto simp: read_parens_argument_def read_non_negative_double_def Let_def
        split: prod.splits option.splits sum.splits if_splits)
  show ?thesis
    using name parens read_targets_of_gate_fuel
    by (auto simp: circuit_read_single_operation_def Let_def
        split: sum.splits prod.splits if_splits)
qed

lemma read_operations_fuel:
  "length input < n \<Longrightarrow> circuit_read_operations n D cf circ input cond \<noteq> Inl Out_of_fuel"
proof (induction n arbitrary: cf circ input cond)
  case 0
  then show ?case by simp
next
  case (Suc n)
  let ?s0 = "read_past_dead_space_between_commands input"
  have s0: "length ?s0 \<le> length input"
    using dead_space_suffix [of input] by (rule suffix_length_le)
  have cont: "continue_reading n D cf' c' i' cond \<noteq> Inl Out_of_fuel"
    if "length i' < n" for cf' c' i'
    using Suc.IH [OF that] by (simp add: continue_reading_def)
  show ?case
  proof (cases "?s0 = [] \<or> hd ?s0 = CHR ''}''")
    case True
    then show ?thesis
      by (cases "?s0 = []") (auto simp: read_operations_unfold Let_def)
  next
    case False
    show ?thesis
    proof (cases "circuit_read_single_operation D circ ?s0")
      case (Inl e)
      with False single_operation_fuel [of D circ ?s0] show ?thesis
        by (simp add: read_operations_unfold)
    next
      case (Inr r)
      obtain circ1 s1 where r: "r = (circ1, s1)" by (cases r) auto
      from single_operation_result [OF Inr [unfolded r]] have "length s1 \<le> length ?s0"
        by (auto dest: suffix_length_le)
      with False s0 Suc.prems have short: "length (tl s1) < n"
        by (cases ?s0; cases s1) auto
      have nested: "continue_reading n D cf' c' input1 cond \<noteq> Inl Out_of_fuel"
        if "circuit_read_operations n D False (repeat_popped circ1) (tl s1)
              READ_UNTIL_END_OF_BLOCK = Inr (circ3, input1)" for circ3 input1 cf' c'
      proof -
        from read_operations_suffix [OF that] have "length input1 \<le> length (tl s1)"
          by (rule suffix_length_le)
        with short show ?thesis by (intro cont) simp
      qed
      from False Inr r Suc.IH [OF short] cont [OF short] nested show ?thesis
        by (auto simp: read_operations_unfold split: sum.splits)
    qed
  qed
qed

text \<open>
  \<^verbatim>\<open>from_text\<close> is total: on every text it returns a circuit or one of the errors the
  source throws.
\<close>

lemma from_text_total: "from_text D text \<noteq> Inl Out_of_fuel"
  using read_operations_fuel [of "text" "Suc (length text)" D False empty_circuit
      READ_UNTIL_END_OF_FILE]
  by (auto simp: from_text_def append_from_text_def Let_def split: sum.splits)

end
